theory Spec2Isabelle
  imports Main "HOL-Library.Sublist"
begin

section \<open>Strings of the source\<close>

text \<open>
  JavaScript strings are sequences of code units. They are modelled as \<open>string\<close>, each
  \<open>char\<close> read as the code unit of the same number (U+0000 to U+00FF). The string methods
  of the source are written out for that range: \<open>trim\<close> strips the white space and line
  terminators of ECMAScript that lie in it, \<open>toLowerCase\<close> maps the upper-case letters of it.
\<close>

definition isWhiteSpace :: "char \<Rightarrow> bool" where
  "isWhiteSpace c \<longleftrightarrow>
     c \<in> set [CHR 0x09, CHR 0x0A, CHR 0x0B, CHR 0x0C, CHR 0x0D, CHR 0x20, CHR 0xA0]"

definition trim :: "string \<Rightarrow> string" where
  "trim s = rev (dropWhile isWhiteSpace (rev (dropWhile isWhiteSpace s)))"

definition toLowerChar :: "char \<Rightarrow> char" where
  "toLowerChar c =
     (let n = (of_char c :: nat)
      in if (65 \<le> n \<and> n \<le> 90) \<or> (192 \<le> n \<and> n \<le> 222 \<and> n \<noteq> 215)
         then char_of (n + 32) else c)"

definition toLowerCase :: "string \<Rightarrow> string" where
  "toLowerCase s = map toLowerChar s"

text \<open>\<open>s.lastIndexOf(c)\<close>: the last position of \<open>c\<close>, or \<open>-1\<close>.\<close>

fun lastIndexOf :: "string \<Rightarrow> char \<Rightarrow> int" where
  "lastIndexOf [] c = - 1"
| "lastIndexOf (x # xs) c =
     (let r = lastIndexOf xs c
      in if 0 \<le> r then r + 1 else if x = c then 0 else - 1)"

text \<open>\<open>s.substring(i)\<close>: a negative start counts as 0, a start beyond the end as the end.\<close>

definition substring :: "string \<Rightarrow> int \<Rightarrow> string" where
  "substring s i = drop (nat (max 0 i)) s"

text \<open>\<open>s.includes(t)\<close>: \<open>t\<close> occurs in \<open>s\<close> as a contiguous run.\<close>

fun includes_str :: "string \<Rightarrow> string \<Rightarrow> bool" where
  "includes_str [] t = (t = [])"
| "includes_str (x # xs) t = (take (length t) (x # xs) = t \<or> includes_str xs t)"

text \<open>\<open>xs.findIndex(p)\<close>: the first position whose element satisfies \<open>p\<close>, or \<open>-1\<close>.\<close>

fun findIndex :: "('a \<Rightarrow> bool) \<Rightarrow> 'a list \<Rightarrow> int" where
  "findIndex p [] = - 1"
| "findIndex p (x # xs) =
     (if p x then 0 else (let r = findIndex p xs in if 0 \<le> r then r + 1 else - 1))"

text \<open>The decimal rendering of a number inside a template literal.\<close>

definition digit :: "nat \<Rightarrow> char" where
  "digit n = ''0123456789'' ! n"

fun string_of_nat :: "nat \<Rightarrow> string" where
  "string_of_nat n =
     (if n < 10 then [digit n] else string_of_nat (n div 10) @ [digit (n mod 10)])"

text \<open>\<open>xs.join(sep)\<close>.\<close>

fun join :: "string list \<Rightarrow> string \<Rightarrow> string" where
  "join [] sep = []"
| "join [x] sep = x"
| "join (x # y # ys) sep = x @ sep @ join (y # ys) sep"

definition nl :: string where
  "nl = [CHR 0x0A]"

section \<open>Data model\<close>

text \<open>A browser \<open>File\<close>: the three attributes the source reads.\<close>

record File =
  file_name :: string
  file_size :: nat
  file_type :: string

datatype role = User | Model

text \<open>\<open>tokenCounts\<close> of a message; a field the object does not have is \<open>None\<close>.\<close>

record tokenCounts =
  tc_input :: "nat option"
  tc_output :: "nat option"
  tc_total :: "nat option"

text \<open>A transcript message \<open>{id, role, text, tokenCounts}\<close>.\<close>

record message =
  msg_id :: nat
  msg_role :: role
  msg_text :: string
  msg_tokenCounts :: "tokenCounts option"

record promptPrefix =
  prefix_id :: string
  prefix_name :: string
  prefix_content :: string
  prefix_isDefault :: bool

text \<open>
  The chat session handle returned by \<open>model.startChat\<close>; the handle is opaque to the source,
  the model records the model name it was opened for.
\<close>

record chat =
  chat_model :: string

text \<open>A content part of a request: inline text, or a file reference (MIME type, URI).\<close>

datatype contentPart = TextPart string | FileData string string

text \<open>
  The module-level variables of \<open>index.js\<close> and the values of the form controls the
  modelled functions read or write. \<open>localStorageKey\<close> is the entry \<open>gemini_api_key\<close> of
  the local storage, \<open>genAI\<close> the client (present or \<open>null\<close>). Two fields record effects:
  \<open>alerts\<close> the texts shown by \<open>alert\<close>, and \<open>outbox\<close> the content parts handed to
  \<open>chatSession.sendMessageStream\<close>, one entry per call, both oldest first. The controls are
  taken to exist in the page. \<open>render\<close> only projects the state to the page and is left out.
\<close>

record state =
  API_KEY :: string
  genAI :: "string option"
  localStorageKey :: "string option"
  messages :: "message list"
  isLoading :: bool
  uploadedFiles :: "File list"
  chatSession :: "chat option"
  promptPrefixes :: "promptPrefix list"
  activePrefix :: string
  messageInputValue :: string
  fileInputValue :: string
  apiKeyInputValue :: string
  apiKeyModalHidden :: bool
  modelSelectValue :: string
  alerts :: "string list"
  outbox :: "contentPart list list"

section \<open>Attachment queue\<close>

definition validTypes :: "string list" where
  "validTypes = [''.pdf'', ''.docx'', ''.txt'', ''.html'', ''.htm'', ''.jpg'', ''.jpeg'',
     ''.png'', ''.gif'', ''.bmp'', ''.tiff'']"

definition fileExtension :: "File \<Rightarrow> string" where
  "fileExtension f = substring (file_name f) (lastIndexOf (file_name f) (CHR ''.''))"

definition typeAlert :: string where
  "typeAlert = ''Please upload PDF, DOCX, TXT, HTML, HTM, or image files (JPG, PNG, GIF, BMP, TIFF) only.''"

text \<open>
  \<open>processFileUpload(file)\<close>. The duplicate test is the source's
  \<open>f.name === file.name && f.size === f.size\<close>, both sides of the second comparison being
  the queued entry.
\<close>

definition processFileUpload :: "state \<Rightarrow> File \<Rightarrow> state" where
  "processFileUpload s f =
     (if toLowerCase (fileExtension f) \<in> set validTypes then
        (let existingFileIndex =
               findIndex (\<lambda>g. file_name g = file_name f \<and> file_size g = file_size g)
                 (uploadedFiles s)
         in if existingFileIndex = - 1
            then s\<lparr>uploadedFiles := uploadedFiles s @ [f]\<rparr>
            else s)
      else s\<lparr>alerts := alerts s @ [typeAlert], fileInputValue := []\<rparr>)"

text \<open>\<open>handleFileSelection\<close>, \<open>handleDrop\<close>: \<open>files.forEach(processFileUpload)\<close>.\<close>

definition processFiles :: "state \<Rightarrow> File list \<Rightarrow> state" where
  "processFiles s fs = foldl processFileUpload s fs"

definition removeAllFiles :: "state \<Rightarrow> state" where
  "removeAllFiles s = s\<lparr>uploadedFiles := [], fileInputValue := []\<rparr>"

text \<open>
  \<open>removeFile(index)\<close>: \<open>splice(index, 1)\<close> inside the range test; the function has no
  \<open>throw\<close> and no call that can fail, so the model is a total function on states.
\<close>

definition removeFile :: "state \<Rightarrow> int \<Rightarrow> state" where
  "removeFile s index =
     (if 0 \<le> index \<and> index < int (length (uploadedFiles s)) then
        (let q = take (nat index) (uploadedFiles s) @ drop (nat index + 1) (uploadedFiles s)
         in if q = [] then s\<lparr>uploadedFiles := q, fileInputValue := []\<rparr>
            else s\<lparr>uploadedFiles := q\<rparr>)
      else s)"

text \<open>The allow-list of the specification, without the dots.\<close>

definition allowList :: "string list" where
  "allowList = [''pdf'', ''docx'', ''txt'', ''html'', ''htm'', ''jpg'', ''jpeg'',
     ''png'', ''gif'', ''bmp'', ''tiff'']"

text \<open>
  A file name has an allowed extension when it ends with a dot and a dot-free suffix that
  is, up to letter case, in the allow-list.
\<close>

definition allowedName :: "string \<Rightarrow> bool" where
  "allowedName n \<longleftrightarrow>
     (\<exists>base ext. n = base @ ''.'' @ ext \<and> CHR ''.'' \<notin> set ext \<and> toLowerCase ext \<in> set allowList)"

definition emptyState :: state where
  "emptyState = \<lparr>API_KEY = [], genAI = None, localStorageKey = None, messages = [],
     isLoading = False, uploadedFiles = [], chatSession = None, promptPrefixes = [],
     activePrefix = [], messageInputValue = [], fileInputValue = [], apiKeyInputValue = [],
     apiKeyModalHidden = True, modelSelectValue = ''gemini-2.5-flash'', alerts = [], outbox = []\<rparr>"

definition mkFile :: "string \<Rightarrow> nat \<Rightarrow> File" where
  "mkFile n k = \<lparr>file_name = n, file_size = k, file_type = ''application/pdf''\<rparr>"

definition queueOk :: "File list \<Rightarrow> bool" where
  "queueOk q \<longleftrightarrow> distinct (map file_name q) \<and> list_all (\<lambda>g. allowedName (file_name g)) q"

definition queueFiles :: "File list" where
  "queueFiles = [mkFile ''a.pdf'' 1, mkFile ''a.pdf'' 2, mkFile ''report.exe'' 3, mkFile ''B.PNG'' 4]"

definition threeFiles :: state where
  "threeFiles = emptyState\<lparr>uploadedFiles := [mkFile ''a.pdf'' 1, mkFile ''b.txt'' 2, mkFile ''c.png'' 3]\<rparr>"


section \<open>Prompt prefix and message composition\<close>

text \<open>\<open>getActivePrefixContent()\<close>.\<close>

definition getActivePrefixContent :: "state \<Rightarrow> string" where
  "getActivePrefixContent s =
     (if activePrefix s \<noteq> [] then
        (case List.find (\<lambda>p. prefix_id p = activePrefix s) (promptPrefixes s) of
           Some p \<Rightarrow> prefix_content p
         | None \<Rightarrow> [])
      else [])"

text \<open>The sentence \<open>Please analyze these N files: a, b.\<close> of \<open>handleSendMessage\<close>.\<close>

definition analyzeSentence :: "File list \<Rightarrow> string" where
  "analyzeSentence fs =
     ''Please analyze these '' @ string_of_nat (length fs) @ '' files: ''
       @ join (map file_name fs) '', '' @ ''.''"

text \<open>\<open>finalMessage\<close>: the text composed for the request, from the trimmed input.\<close>

definition finalMessage :: "state \<Rightarrow> string \<Rightarrow> string" where
  "finalMessage s userMessage =
     (let prefixContent = getActivePrefixContent s
      in if prefixContent \<noteq> [] \<and> userMessage \<noteq> [] then
           prefixContent @ nl @ nl @ userMessage
         else if prefixContent \<noteq> [] \<and> uploadedFiles s \<noteq> [] then
           prefixContent @ nl @ nl @ analyzeSentence (uploadedFiles s)
         else userMessage)"

text \<open>The user message shown in the transcript; \<open>now\<close> is the value of \<open>Date.now()\<close>.\<close>

definition userEntry :: "nat \<Rightarrow> string \<Rightarrow> message" where
  "userEntry now t = \<lparr>msg_id = now, msg_role = User, msg_text = t, msg_tokenCounts = None\<rparr>"

definition pushUserMessage :: "nat \<Rightarrow> string \<Rightarrow> state \<Rightarrow> state" where
  "pushUserMessage now userMessage s =
     (if userMessage \<noteq> [] then
        s\<lparr>messages := messages s @ [userEntry now userMessage]\<rparr>
      else if uploadedFiles s \<noteq> [] then
        s\<lparr>messages := messages s @ [userEntry now (analyzeSentence (uploadedFiles s))]\<rparr>
      else s)"

definition reportInstruction :: string where
  \<open>reportInstruction = nl @ nl @ ''Before analyzing the content, please identify the company name and what type of report each document is based on its content (Annual Report, Sustainability Report, or ESG Report) and mention this in your response in the format: "[Company Name] - [Document Type]".''\<close>

text \<open>The text part of \<open>contentParts\<close>: none when the composed text is empty.\<close>

definition textParts :: "state \<Rightarrow> string \<Rightarrow> contentPart list" where
  "textParts s final =
     (if final \<noteq> [] then
        [TextPart (if uploadedFiles s \<noteq> [] then final @ reportInstruction else final)]
      else [])"

section \<open>Remote model gateway\<close>

text \<open>A thrown JavaScript \<open>Error\<close>, with its \<open>message\<close>.\<close>

datatype error = Error string

fun error_message :: "error \<Rightarrow> string" where
  "error_message (Error m) = m"

text \<open>
  What the network answers to one upload: the initiation \<open>fetch\<close> (rejected, or a response
  with its \<open>ok\<close> flag, body text and \<open>X-Goog-Upload-URL\<close> header) and the transfer request
  (\<open>onerror\<close>, or \<open>onload\<close> with status, body and what \<open>JSON.parse(body).file\<close> gives:
  \<open>None\<close> when parsing or the member access throws, \<open>Some None\<close> when the member is absent).
\<close>

record fileMetadata =
  meta_uri :: string
  meta_mimeType :: string

record initResponse =
  init_ok :: bool
  init_text :: string
  init_uploadUrl :: "string option"

datatype xhrResult = XhrError | XhrLoad nat string "fileMetadata option option"

record uploadNet =
  net_init :: "error + initResponse"
  net_xhr :: xhrResult

text \<open>\<open>uploadFileToGemini(file)\<close>: the value the promise resolves to, or the error thrown.\<close>

definition uploadFileToGemini :: "state \<Rightarrow> uploadNet \<Rightarrow> File \<Rightarrow> error + fileMetadata option" where
  "uploadFileToGemini s net f =
     (if API_KEY s = [] then Inl (Error ''API Key is required for file upload'')
      else case net_init net of
        Inl e \<Rightarrow> Inl e
      | Inr initResponse \<Rightarrow>
          if \<not> init_ok initResponse then
            Inl (Error (''Failed to initialize upload: '' @ init_text initResponse))
          else if (case init_uploadUrl initResponse of None \<Rightarrow> True | Some u \<Rightarrow> u = []) then
            Inl (Error ''Failed to get upload URL from headers'')
          else case net_xhr net of
            XhrError \<Rightarrow> Inl (Error ''Network error during upload'')
          | XhrLoad status responseText parsed \<Rightarrow>
              if 200 \<le> status \<and> status < 300 then
                (case parsed of
                   None \<Rightarrow> Inl (Error (''Failed to parse upload response: '' @ responseText))
                 | Some fileMeta \<Rightarrow> Inr fileMeta)
              else Inl (Error (''Upload failed with status '' @ string_of_nat status @ '': ''
                     @ responseText)))"

text \<open>
  The upload loop of \<open>handleSendMessage\<close>: the files in queue order, file \<open>i\<close> against the
  network answer \<open>net i\<close>; the first failure is rethrown with the file name.
\<close>

fun uploadAll :: "state \<Rightarrow> (nat \<Rightarrow> uploadNet) \<Rightarrow> nat \<Rightarrow> File list \<Rightarrow> error + fileMetadata option list" where
  "uploadAll s net i [] = Inr []"
| "uploadAll s net i (f # fs) =
     (case uploadFileToGemini s (net i) f of
        Inl uploadError \<Rightarrow>
          Inl (Error (''Failed to upload '' @ file_name f @ '': '' @ error_message uploadError))
      | Inr fileMetadata \<Rightarrow>
          (case uploadAll s net (Suc i) fs of
             Inl e \<Rightarrow> Inl e
           | Inr uploadResults \<Rightarrow> Inr (fileMetadata # uploadResults)))"

text \<open>
  The file-reference parts; reading \<open>mimeType\<close> of an absent upload result raises the
  engine's \<open>TypeError\<close>, whose message is the parameter \<open>typeError\<close>.
\<close>

fun fileParts :: "string \<Rightarrow> fileMetadata option list \<Rightarrow> error + contentPart list" where
  "fileParts typeError [] = Inr []"
| "fileParts typeError (None # ms) = Inl (Error typeError)"
| "fileParts typeError (Some fileMeta # ms) =
     (case fileParts typeError ms of
        Inl e \<Rightarrow> Inl e
      | Inr ps \<Rightarrow> Inr (FileData (meta_mimeType fileMeta) (meta_uri fileMeta) # ps))"

text \<open>A streamed chunk: what \<open>chunk.text()\<close> gives (it is library code and may throw),
  the candidates and the usage metadata.\<close>

record candidate =
  finishReason :: "string option"

record usageMetadata =
  promptTokenCount :: "nat option"
  candidatesTokenCount :: "nat option"
  totalTokenCount :: "nat option"

record chunk =
  chunk_text :: "error + string"
  chunk_candidates :: "candidate list option"
  chunk_usageMetadata :: "usageMetadata option"

text \<open>The stream of a response: its chunks in arrival order, and the error that ends the
  iteration when the stream fails.\<close>

record streamResult =
  stream_chunks :: "chunk list"
  stream_error :: "error option"

text \<open>
  What the outside world answers during one turn: the three readings of \<open>Date.now()\<close>
  (user message, response placeholder, error message), the message of the engine's
  \<open>TypeError\<close>, the network answers to the uploads by position in the queue, the answer of
  \<open>countTokens\<close> and the answer of \<open>sendMessageStream\<close> to the content parts sent.
\<close>

record turnEnv =
  env_nowUser :: nat
  env_nowResponse :: nat
  env_nowError :: nat
  env_typeError :: string
  env_upload :: "nat \<Rightarrow> uploadNet"
  env_countTokens :: "contentPart list \<Rightarrow> error + nat option"
  env_sendMessageStream :: "contentPart list \<Rightarrow> error + streamResult"

section \<open>Session orchestrator\<close>

definition welcomeMessage :: string where
  \<open>welcomeMessage = ''Hello! I'm Analyst AI specialized in document analysis. I can help you analyze documents, validate data consistency, and detect duplicate metrics across reports.'' @ nl @ nl @ ''Upload documents or ask me anything!''\<close>

definition setupNotice :: string where
  \<open>setupNotice = nl @ nl @ ''**Important Setup Required**: You need to set up your Gemini API key before using this application. Click the "Set API Key" button in the top right corner to get started.''\<close>

text \<open>\<open>initializeChat()\<close>: the transcript becomes the single greeting.\<close>

definition initializeChat :: "nat \<Rightarrow> state \<Rightarrow> state" where
  "initializeChat now s =
     s\<lparr>messages :=
         [\<lparr>msg_id = now, msg_role = Model,
           msg_text = (if API_KEY s = [] then welcomeMessage @ setupNotice else welcomeMessage),
           msg_tokenCounts = None\<rparr>]\<rparr>"

text \<open>\<open>resetSession()\<close>.\<close>

definition resetSession :: "nat \<Rightarrow> state \<Rightarrow> state" where
  "resetSession now s =
     initializeChat now (removeAllFiles (s\<lparr>messages := [], chatSession := None\<rparr>))"

text \<open>
  The \<open>change\<close> listener of the model selector: the selector already holds the new value
  \<open>v\<close>; \<open>confirmed\<close> is the answer to the \<open>confirm\<close> dialog. On a refusal nothing is done
  (the selection is not reverted).
\<close>

definition modelSelectChange :: "string \<Rightarrow> bool \<Rightarrow> nat \<Rightarrow> state \<Rightarrow> state" where
  "modelSelectChange v confirmed now s =
     (let s1 = s\<lparr>modelSelectValue := v\<rparr>
      in if confirmed then resetSession now s1 else s1)"

text \<open>\<open>openApiKeyModal()\<close>.\<close>

definition openApiKeyModal :: "state \<Rightarrow> state" where
  "openApiKeyModal s =
     (let s1 = (if API_KEY s \<noteq> [] then s\<lparr>apiKeyInputValue := API_KEY s\<rparr> else s)
      in s1\<lparr>apiKeyModalHidden := False\<rparr>)"

definition keyUpdatedMessage :: string where
  "keyUpdatedMessage = ''API key has been updated successfully! You can now use the chat.''"

text \<open>\<open>saveApiKey(event)\<close>.\<close>

definition saveApiKey :: "nat \<Rightarrow> state \<Rightarrow> state" where
  "saveApiKey now s =
     (let newApiKey = trim (apiKeyInputValue s)
      in if newApiKey = [] then s\<lparr>alerts := alerts s @ [''Please enter a valid API key'']\<rparr>
         else s\<lparr>localStorageKey := Some newApiKey, API_KEY := newApiKey,
                genAI := Some newApiKey, chatSession := None, apiKeyModalHidden := True,
                messages := messages s @
                  [\<lparr>msg_id = now, msg_role = Model, msg_text = keyUpdatedMessage,
                    msg_tokenCounts = None\<rparr>]\<rparr>)"

subsection \<open>The turn\<close>

text \<open>The empty placeholder for the model's response.\<close>

definition placeholder :: "nat \<Rightarrow> message" where
  "placeholder responseId =
     \<lparr>msg_id = responseId, msg_role = Model, msg_text = [],
      msg_tokenCounts = Some \<lparr>tc_input = Some 0, tc_output = Some 0, tc_total = None\<rparr>\<rparr>"

text \<open>The upload phase: the file parts of the request, or the error thrown.\<close>

definition uploadPhase :: "turnEnv \<Rightarrow> state \<Rightarrow> error + contentPart list" where
  "uploadPhase env s =
     (if uploadedFiles s \<noteq> [] then
        (case uploadAll s (env_upload env) 0 (uploadedFiles s) of
           Inl e \<Rightarrow> Inl e
         | Inr uploadResults \<Rightarrow> fileParts (env_typeError env) uploadResults)
      else Inr [])"

text \<open>
  The token count: the input count is written into the first message with the response
  id; an error (of the request, or of writing into a message without \<open>tokenCounts\<close>) is
  caught and ignored.
\<close>

definition setInputTokens :: "nat \<Rightarrow> nat option \<Rightarrow> message list \<Rightarrow> message list" where
  "setInputTokens responseId count ms =
     (let modelMessageIndex = findIndex (\<lambda>msg. msg_id msg = responseId) ms
      in if modelMessageIndex \<noteq> - 1 then
           (case msg_tokenCounts (ms ! nat modelMessageIndex) of
              None \<Rightarrow> ms
            | Some tc \<Rightarrow>
                ms[nat modelMessageIndex :=
                     (ms ! nat modelMessageIndex)\<lparr>msg_tokenCounts := Some (tc\<lparr>tc_input := count\<rparr>)\<rparr>])
         else ms)"

definition countPhase :: "turnEnv \<Rightarrow> nat \<Rightarrow> contentPart list \<Rightarrow> state \<Rightarrow> state" where
  "countPhase env responseId contentParts s =
     (case env_countTokens env contentParts of
        Inl tokenError \<Rightarrow> s
      | Inr count \<Rightarrow> s\<lparr>messages := setInputTokens responseId count (messages s)\<rparr>)"

text \<open>The annotation for a finish reason other than \<open>STOP\<close>.\<close>

definition finishAnnotation :: "string \<Rightarrow> string" where
  "finishAnnotation r =
     (if r = ''SAFETY'' then nl @ nl @ ''**[Generation stopped due to Safety Filters]**''
      else if r = ''MAX_TOKENS'' then nl @ nl @ ''**[Generation stopped due to Max Token Limit]**''
      else nl @ nl @ ''**[Generation stopped: '' @ r @ '']**'')"

definition appendFinishReason :: "chunk \<Rightarrow> string \<Rightarrow> string" where
  "appendFinishReason c responseText =
     (case chunk_candidates c of
        None \<Rightarrow> responseText
      | Some [] \<Rightarrow> responseText
      | Some (cand # rest) \<Rightarrow>
          (case finishReason cand of
             None \<Rightarrow> responseText
           | Some r \<Rightarrow>
               if r \<noteq> [] \<and> r \<noteq> ''STOP'' then responseText @ finishAnnotation r
               else responseText))"

text \<open>
  One iteration of the \<open>for await\<close> loop on the pair of the accumulated \<open>responseText\<close>
  and the transcript: \<open>Inl\<close> when \<open>chunk.text()\<close> throws.
\<close>

definition applyChunk :: "nat \<Rightarrow> chunk \<Rightarrow> string \<times> message list \<Rightarrow> error + string \<times> message list" where
  "applyChunk responseId c st =
     (case chunk_text c of
        Inl e \<Rightarrow> Inl e
      | Inr chunkText \<Rightarrow>
          (let responseText = appendFinishReason c (fst st @ chunkText);
               ms = snd st;
               modelMessageIndex = findIndex (\<lambda>msg. msg_id msg = responseId) ms
           in if modelMessageIndex \<noteq> - 1 then
                (let m1 = (ms ! nat modelMessageIndex)\<lparr>msg_text := responseText\<rparr>;
                     m2 = (case chunk_usageMetadata c of
                             None \<Rightarrow> m1
                           | Some u \<Rightarrow>
                               m1\<lparr>msg_tokenCounts :=
                                    Some \<lparr>tc_input = promptTokenCount u,
                                          tc_output = candidatesTokenCount u,
                                          tc_total = totalTokenCount u\<rparr>\<rparr>)
                 in Inr (responseText, ms[nat modelMessageIndex := m2]))
              else Inr (responseText, ms)))"

text \<open>The loop over the chunks: the last pair reached, and the error that stopped it.\<close>

fun processStream :: "nat \<Rightarrow> chunk list \<Rightarrow> string \<times> message list \<Rightarrow> (string \<times> message list) \<times> error option" where
  "processStream responseId [] st = (st, None)"
| "processStream responseId (c # cs) st =
     (case applyChunk responseId c st of
        Inl e \<Rightarrow> (st, Some e)
      | Inr st' \<Rightarrow> processStream responseId cs st')"

text \<open>The transcripts after each chunk application of the loop, in order.\<close>

fun streamTrace :: "nat \<Rightarrow> chunk list \<Rightarrow> string \<times> message list \<Rightarrow> message list list" where
  "streamTrace responseId [] st = []"
| "streamTrace responseId (c # cs) st =
     (case applyChunk responseId c st of
        Inl e \<Rightarrow> []
      | Inr st' \<Rightarrow> snd st' # streamTrace responseId cs st')"

text \<open>Sending the request and reading the stream; after a complete stream the queue is
  cleared.\<close>

definition streamPhase :: "turnEnv \<Rightarrow> nat \<Rightarrow> contentPart list \<Rightarrow> state \<Rightarrow> state \<times> error option" where
  "streamPhase env responseId contentParts s0 =
     (let s = s0\<lparr>outbox := outbox s0 @ [contentParts]\<rparr>
      in case env_sendMessageStream env contentParts of
           Inl e \<Rightarrow> (s, Some e)
         | Inr result \<Rightarrow>
             (case processStream responseId (stream_chunks result) ([], messages s) of
                (st, Some e) \<Rightarrow> (s\<lparr>messages := snd st\<rparr>, Some e)
              | (st, None) \<Rightarrow>
                  (case stream_error result of
                     Some e \<Rightarrow> (s\<lparr>messages := snd st\<rparr>, Some e)
                   | None \<Rightarrow>
                       (let s1 = s\<lparr>messages := snd st\<rparr>
                        in (if uploadedFiles s1 \<noteq> [] then removeAllFiles s1 else s1, None)))))"

text \<open>
  The \<open>try\<close> block of \<open>handleSendMessage\<close> up to the token count: the state reached, and
  either the error thrown or the response id and the content parts of the request. A missing
  client (\<open>genAI\<close> is \<open>null\<close>) makes \<open>genAI.getGenerativeModel\<close> raise the engine's
  \<open>TypeError\<close>.
\<close>

definition prepare :: "turnEnv \<Rightarrow> string \<Rightarrow> state \<Rightarrow> state \<times> (error + nat \<times> contentPart list)" where
  "prepare env userMessage s0 =
     (let s1 = s0\<lparr>isLoading := True\<rparr>;
          final = finalMessage s1 userMessage;
          s2 = pushUserMessage (env_nowUser env) userMessage s1;
          s3 = s2\<lparr>messageInputValue := []\<rparr>
      in case genAI s3 of
           None \<Rightarrow> (s3, Inl (Error (env_typeError env)))
         | Some client \<Rightarrow>
             (let s4 = (case chatSession s3 of
                          None \<Rightarrow> s3\<lparr>chatSession := Some \<lparr>chat_model = modelSelectValue s3\<rparr>\<rparr>
                        | Some session \<Rightarrow> s3);
                  responseId = env_nowResponse env + 1;
                  s5 = s4\<lparr>messages := messages s4 @ [placeholder responseId]\<rparr>
              in case uploadPhase env s5 of
                   Inl e \<Rightarrow> (s5, Inl e)
                 | Inr files \<Rightarrow>
                     (let contentParts = textParts s5 final @ files
                      in (countPhase env responseId contentParts s5,
                          Inr (responseId, contentParts)))))"

text \<open>The whole \<open>try\<close> block: the state reached, and the error thrown if any.\<close>

definition tryBlock :: "turnEnv \<Rightarrow> string \<Rightarrow> state \<Rightarrow> state \<times> error option" where
  "tryBlock env userMessage s0 =
     (case prepare env userMessage s0 of
        (s, Inl e) \<Rightarrow> (s, Some e)
      | (s, Inr (responseId, contentParts)) \<Rightarrow> streamPhase env responseId contentParts s)"

definition apiKeyErrorMessage :: string where
  \<open>apiKeyErrorMessage = ''API key error: The API key you provided is not valid. Please click the "Set API Key" button to update your API key.''\<close>

definition invalidKey :: "error \<Rightarrow> bool" where
  "invalidKey e \<longleftrightarrow> error_message e \<noteq> [] \<and> includes_str (error_message e) ''API key not valid''"

definition errorMessage :: "error \<Rightarrow> string" where
  "errorMessage e =
     (if invalidKey e then apiKeyErrorMessage
      else if error_message e \<noteq> [] then ''Error: '' @ error_message e
      else ''Sorry, an error occurred. Please try again.'')"

definition errorEntry :: "nat \<Rightarrow> error \<Rightarrow> message" where
  "errorEntry now e =
     \<lparr>msg_id = now + 1, msg_role = Model, msg_text = errorMessage e, msg_tokenCounts = None\<rparr>"

text \<open>The \<open>catch\<close> block. The key in the local storage is kept.\<close>

definition catchBlock :: "nat \<Rightarrow> error \<Rightarrow> state \<Rightarrow> state" where
  "catchBlock now e s =
     (let s1 = (if invalidKey e then s\<lparr>API_KEY := [], genAI := None, chatSession := None\<rparr> else s)
      in s1\<lparr>messages := messages s1 @ [errorEntry now e]\<rparr>)"

text \<open>
  \<open>handleSendMessage(event)\<close>: the two guards, then \<open>try\<close>, \<open>catch\<close> and \<open>finally\<close>. The
  turn is taken as one step: no other handler runs between its suspension points.
\<close>

definition handleSendMessage :: "turnEnv \<Rightarrow> state \<Rightarrow> state" where
  "handleSendMessage env s =
     (let userMessage = trim (messageInputValue s)
      in if userMessage = [] \<and> uploadedFiles s = [] then s
         else if API_KEY s = [] then openApiKeyModal s
         else (case tryBlock env userMessage s of
                 (s', None) \<Rightarrow> s'\<lparr>isLoading := False\<rparr>
               | (s', Some e) \<Rightarrow> (catchBlock (env_nowError env) e s')\<lparr>isLoading := False\<rparr>))"

section \<open>The request of a turn, from the network's answers\<close>

text \<open>The answers to one upload with which the upload succeeds: the initiation is
  accepted and names a session URL, the transfer ends with a 2xx status and a body whose
  \<open>file\<close> member is present.\<close>

definition uploadOk :: "uploadNet \<Rightarrow> bool" where
  "uploadOk net \<longleftrightarrow>
     (case net_init net of
        Inl e \<Rightarrow> False
      | Inr r \<Rightarrow>
          init_ok r
          \<and> (case init_uploadUrl r of None \<Rightarrow> False | Some u \<Rightarrow> u \<noteq> [])
          \<and> (case net_xhr net of
                XhrError \<Rightarrow> False
              | XhrLoad status body parsed \<Rightarrow>
                  200 \<le> status \<and> status < 300
                  \<and> (case parsed of Some (Some m) \<Rightarrow> True | _ \<Rightarrow> False)))"

text \<open>The file reference such an upload stands for in the request.\<close>

definition uploadedPart :: "uploadNet \<Rightarrow> contentPart" where
  "uploadedPart net =
     (case net_xhr net of
        XhrLoad status body (Some (Some m)) \<Rightarrow> FileData (meta_mimeType m) (meta_uri m)
      | _ \<Rightarrow> FileData [] [])"

definition uploadsOk :: "turnEnv \<Rightarrow> state \<Rightarrow> bool" where
  "uploadsOk env s \<longleftrightarrow>
     list_all (\<lambda>j. uploadOk (env_upload env j)) [0..<length (uploadedFiles s)]"

text \<open>
  The content parts of the request of a turn whose uploads succeed: the text part made
  from the composed text, if any, then one file reference per queued file, in queue order.
\<close>

definition requestParts :: "turnEnv \<Rightarrow> state \<Rightarrow> contentPart list" where
  "requestParts env s =
     textParts s (finalMessage s (trim (messageInputValue s)))
       @ map (\<lambda>j. uploadedPart (env_upload env j)) [0..<length (uploadedFiles s)]"

text \<open>\<open>chunk.text()\<close> returns for every chunk of the list.\<close>

definition textsReturn :: "chunk list \<Rightarrow> bool" where
  "textsReturn cs \<longleftrightarrow> list_all (\<lambda>d. case chunk_text d of Inl e \<Rightarrow> False | Inr x \<Rightarrow> True) cs"

text \<open>
  What a turn that fails with error \<open>e\<close> leaves, from the state \<open>s\<close> it started in to the
  state \<open>s'\<close> it ends in. The transcript has gained the user message, the placeholder and,
  last, a model message with the error text: the fixed API-key message when the error's
  message includes \<open>API key not valid\<close>, else \<open>Error:\<close> and the error's message, else a
  fixed apology. The loading flag is cleared, the queue and the key in the local storage
  are as before. For an invalid key the key variable, the client and the chat session are
  emptied, and the next submission that is not the empty one, whatever is typed and
  whatever the network would answer, only opens the key dialog: nothing is sent and the
  transcript stays as it is. For any other error the key variable is as before.
\<close>

definition errorReported :: "turnEnv \<Rightarrow> state \<Rightarrow> state \<Rightarrow> error \<Rightarrow> bool" where
  \<open>errorReported env s s' e \<longleftrightarrow>
     length (messages s') = length (messages s) + 3
     \<and> last (messages s') =
         \<lparr>msg_id = env_nowError env + 1, msg_role = Model,
          msg_text =
            (if includes_str (error_message e) ''API key not valid'' then
               ''API key error: The API key you provided is not valid. Please click the "Set API Key" button to update your API key.''
             else if error_message e \<noteq> [] then ''Error: '' @ error_message e
             else ''Sorry, an error occurred. Please try again.''),
          msg_tokenCounts = None\<rparr>
     \<and> isLoading s' = False
     \<and> uploadedFiles s' = uploadedFiles s
     \<and> localStorageKey s' = localStorageKey s
     \<and> (includes_str (error_message e) ''API key not valid'' \<longrightarrow>
          API_KEY s' = [] \<and> genAI s' = None \<and> chatSession s' = None
          \<and> (\<forall>env' v. trim v \<noteq> [] \<or> uploadedFiles s' \<noteq> [] \<longrightarrow>
                handleSendMessage env' (s'\<lparr>messageInputValue := v\<rparr>)
                  = (s'\<lparr>messageInputValue := v\<rparr>)\<lparr>apiKeyModalHidden := False\<rparr>))
     \<and> (\<not> includes_str (error_message e) ''API key not valid'' \<longrightarrow> API_KEY s' = API_KEY s)\<close>

section \<open>The response helper of the SDK\<close>

text \<open>
  Modelled from the imported library \<open>@google/generative-ai\<close>, whose code is not part of
  the sources of the repository: \<open>text()\<close> of a streamed response. When the response has
  candidates and the first one has the finish reason \<open>RECITATION\<close>, \<open>SAFETY\<close> or
  \<open>LANGUAGE\<close>, it throws an error with the message
  \<open>[GoogleGenerativeAI Error]: Candidate was blocked due to\<close> and the reason; with
  candidates otherwise it returns the text \<open>t\<close> of the first candidate's parts; with no
  candidate (and no prompt feedback) it returns the empty string. The candidate is taken
  to carry no finish message.
\<close>

definition badFinishReasons :: "string list" where
  "badFinishReasons = [''RECITATION'', ''SAFETY'', ''LANGUAGE'']"

definition sdkText :: "candidate list option \<Rightarrow> string \<Rightarrow> error + string" where
  "sdkText cands t =
     (case cands of
        Some (cand # rest) \<Rightarrow>
          (case finishReason cand of
             Some r \<Rightarrow>
               if r \<in> set badFinishReasons then
                 Inl (Error (''[GoogleGenerativeAI Error]: Candidate was blocked due to '' @ r))
               else Inr t
           | None \<Rightarrow> Inr t)
      | _ \<Rightarrow> Inr [])"

text \<open>A chunk as the library delivers it: one candidate with the parts' text \<open>t\<close> and the
  finish reason \<open>r\<close>, and \<open>text()\<close> as above.\<close>

definition sdkChunk :: "string \<Rightarrow> string option \<Rightarrow> chunk" where
  "sdkChunk t r =
     \<lparr>chunk_text = sdkText (Some [\<lparr>finishReason = r\<rparr>]) t,
      chunk_candidates = Some [\<lparr>finishReason = r\<rparr>],
      chunk_usageMetadata = None\<rparr>"

section \<open>Concrete inputs\<close>

definition plainChunk :: "string \<Rightarrow> chunk" where
  "plainChunk t = \<lparr>chunk_text = Inr t, chunk_candidates = None, chunk_usageMetadata = None\<rparr>"

definition okUpload :: uploadNet where
  "okUpload =
     \<lparr>net_init = Inr \<lparr>init_ok = True, init_text = [], init_uploadUrl = Some ''https://upload''\<rparr>,
      net_xhr = XhrLoad 200 ''{}'' (Some (Some \<lparr>meta_uri = ''files/1'', meta_mimeType = ''application/pdf''\<rparr>))\<rparr>"

definition refusedUpload :: "string \<Rightarrow> uploadNet" where
  "refusedUpload body =
     \<lparr>net_init = Inr \<lparr>init_ok = False, init_text = body, init_uploadUrl = None\<rparr>,
      net_xhr = XhrError\<rparr>"

text \<open>An environment in which every request succeeds and the answer arrives in two chunks.\<close>

definition quietEnv :: turnEnv where
  "quietEnv =
     \<lparr>env_nowUser = 100, env_nowResponse = 100, env_nowError = 101,
      env_typeError = ''Cannot read properties of undefined'',
      env_upload = (\<lambda>i. okUpload),
      env_countTokens = (\<lambda>parts. Inr (Some 7)),
      env_sendMessageStream =
        (\<lambda>parts. Inr \<lparr>stream_chunks = [plainChunk ''Net '', plainChunk ''income''],
                        stream_error = None\<rparr>)\<rparr>"

text \<open>A state with a credential, one earlier message and an open chat session.\<close>

definition chatting :: state where
  "chatting =
     emptyState\<lparr>API_KEY := ''key'', genAI := Some ''key'', localStorageKey := Some ''key'',
       messages := [userEntry 5 ''hi''],
       chatSession := Some \<lparr>chat_model = ''gemini-2.5-flash''\<rparr>\<rparr>"

definition blankInput :: state where
  "blankInput = chatting\<lparr>messageInputValue := [CHR 0x20, CHR 0x0A, CHR 0x09]\<rparr>"

definition newKeyTyped :: state where
  "newKeyTyped = chatting\<lparr>apiKeyInputValue := '' key2 ''\<rparr>"

text \<open>The invariant of the loop at position p.\<close>

definition loopInv :: "nat \<Rightarrow> nat \<Rightarrow> string \<times> message list \<Rightarrow> bool" where
  "loopInv rid p st \<longleftrightarrow>
     p < length (snd st)
     \<and> (int p = findIndex (\<lambda>m. msg_id m = rid) (snd st) \<longrightarrow> msg_text (snd st ! p) = fst st)"

definition asking :: state where
  "asking = chatting\<lparr>messageInputValue := ''Summarize''\<rparr>"

definition twoChunks :: "chunk list" where
  "twoChunks = [plainChunk ''Net '', plainChunk ''income'']"

definition askingTranscript :: "message list" where
  "askingTranscript = messages (fst (prepare quietEnv ''Summarize'' asking))"

definition askingTrace :: "message list list" where
  "askingTrace = askingTranscript # streamTrace 101 twoChunks ([], askingTranscript)"

definition metricsPrefix :: promptPrefix where
  "metricsPrefix = \<lparr>prefix_id = ''p1'', prefix_name = ''Metrics'',
     prefix_content = ''List the metrics.'', prefix_isDefault = True\<rparr>"

definition prefixedFiles :: state where
  "prefixedFiles = chatting\<lparr>promptPrefixes := [metricsPrefix], activePrefix := ''p1'',
     uploadedFiles := [mkFile ''a.pdf'' 1]\<rparr>"

definition prefixedText :: state where
  "prefixedText = chatting\<lparr>promptPrefixes := [metricsPrefix], activePrefix := ''p1'',
     messageInputValue := '' Revenue? ''\<rparr>"

definition invalidKeyEnv :: turnEnv where
  "invalidKeyEnv = quietEnv\<lparr>env_sendMessageStream :=
     (\<lambda>parts. Inl (Error ''[400 Bad Request] API key not valid. Please pass a valid API key.''))\<rparr>"

definition attached :: state where
  "attached = chatting\<lparr>uploadedFiles := [mkFile ''a.pdf'' 1], messageInputValue := ''Summarize''\<rparr>"

definition quotaEnv :: turnEnv where
  "quotaEnv = quietEnv\<lparr>env_upload := (\<lambda>i. refusedUpload ''quota exceeded'')\<rparr>"

definition keyRefusedEnv :: turnEnv where
  "keyRefusedEnv = quietEnv\<lparr>env_upload :=
     (\<lambda>i. refusedUpload ''API key not valid. Please pass a valid API key.'')\<rparr>"

definition filesOnly :: state where
  "filesOnly = chatting\<lparr>uploadedFiles := [mkFile ''a.pdf'' 1]\<rparr>"

text \<open>Two answers as the library delivers them: the second chunk blocked by the safety
  filters, and the second chunk cut at the token limit.\<close>

definition blockedStream :: streamResult where
  "blockedStream =
     \<lparr>stream_chunks = [sdkChunk ''Partial'' None, sdkChunk '' answer'' (Some ''SAFETY'')],
      stream_error = None\<rparr>"

definition blockedEnv :: turnEnv where
  "blockedEnv = quietEnv\<lparr>env_sendMessageStream := (\<lambda>parts. Inr blockedStream)\<rparr>"

definition cappedStream :: streamResult where
  "cappedStream =
     \<lparr>stream_chunks = [sdkChunk ''Partial'' None, sdkChunk '' answer'' (Some ''MAX_TOKENS'')],
      stream_error = None\<rparr>"

definition cappedEnv :: turnEnv where
  "cappedEnv = quietEnv\<lparr>env_sendMessageStream := (\<lambda>parts. Inr cappedStream)\<rparr>"

section \<open>Properties of the attachment queue\<close>

lemma findIndex_ge: "- 1 \<le> findIndex p xs"
  by (induction xs) (auto simp: Let_def)

lemma findIndex_none: "findIndex p xs = - 1 \<longleftrightarrow> (\<forall>x \<in> set xs. \<not> p x)"
proof (induction xs)
  case Nil
  show ?case by simp
next
  case (Cons x xs)
  have "- 1 \<le> findIndex p xs" by (rule findIndex_ge)
  with Cons show ?case by (auto simp: Let_def)
qed

lemma lastIndexOf_ge: "- 1 \<le> lastIndexOf s c"
  by (induction s) (auto simp: Let_def)

lemma lastIndexOf_none: "lastIndexOf s c = - 1 \<longleftrightarrow> c \<notin> set s"
proof (induction s)
  case Nil
  show ?case by simp
next
  case (Cons x xs)
  have "- 1 \<le> lastIndexOf xs c" by (rule lastIndexOf_ge)
  with Cons show ?case by (auto simp: Let_def)
qed

lemma lastIndexOf_append: "c \<notin> set ext \<Longrightarrow> lastIndexOf (base @ c # ext) c = int (length base)"
proof (induction base)
  case Nil
  then have "lastIndexOf ext c = - 1" by (simp add: lastIndexOf_none)
  then show ?case by (simp add: Let_def)
next
  case (Cons x xs)
  then show ?case by (simp add: Let_def)
qed

lemma lastIndexOf_split:
  "0 \<le> lastIndexOf s c \<Longrightarrow> \<exists>base ext. s = base @ c # ext \<and> c \<notin> set ext"
proof -
  assume "0 \<le> lastIndexOf s c"
  then have "c \<in> set s" using lastIndexOf_none [of s c] by auto
  then show ?thesis by (metis split_list_last)
qed

lemma toLowerChar_dot: "toLowerChar (CHR ''.'') = CHR ''.''"
  by (simp add: toLowerChar_def)

lemma toLowerChar_dot_iff: "toLowerChar x = CHR ''.'' \<longleftrightarrow> x = CHR ''.''"
proof
  assume h: "toLowerChar x = CHR ''.''"
  show "x = CHR ''.''"
  proof (rule ccontr)
    assume nx: "x \<noteq> CHR ''.''"
    let ?n = "of_char x :: nat"
    from h nx have c: "(65 \<le> ?n \<and> ?n \<le> 90) \<or> (192 \<le> ?n \<and> ?n \<le> 222 \<and> ?n \<noteq> 215)"
      and e: "char_of (?n + 32) = CHR ''.''"
      by (auto simp: toLowerChar_def Let_def split: if_splits)
    from e have "(of_char (char_of (?n + 32) :: char) :: nat) = of_char (CHR ''.'')" by simp
    then have m: "(?n + 32) mod 256 = 46" by (simp add: of_char_of)
    from c have "?n + 32 < 256" by linarith
    then have "(?n + 32) mod 256 = ?n + 32" by simp
    with m c show False by linarith
  qed
next
  assume "x = CHR ''.''" then show "toLowerChar x = CHR ''.''" by (simp add: toLowerChar_dot)
qed

lemma validTypes_allowList: "validTypes = map ((#) (CHR ''.'')) allowList"
  by (simp add: validTypes_def allowList_def)

lemma dot_ext_valid: "CHR ''.'' # e \<in> set validTypes \<longleftrightarrow> e \<in> set allowList"
  by (auto simp: validTypes_allowList)

lemma valid_starts_dot: "t \<in> set validTypes \<Longrightarrow> \<exists>e. t = CHR ''.'' # e"
  by (auto simp: validTypes_allowList)

lemma extension_test_iff:
  "toLowerCase (fileExtension f) \<in> set validTypes \<longleftrightarrow> allowedName (file_name f)"
proof
  assume v: "toLowerCase (fileExtension f) \<in> set validTypes"
  let ?n = "file_name f"
  show "allowedName ?n"
  proof (cases "0 \<le> lastIndexOf ?n (CHR ''.'')")
    case True
    then obtain base ext where n: "?n = base @ CHR ''.'' # ext" and d: "CHR ''.'' \<notin> set ext"
      using lastIndexOf_split by blast
    have "lastIndexOf ?n (CHR ''.'') = int (length base)"
      using lastIndexOf_append [OF d, of base] n by simp
    then have "fileExtension f = CHR ''.'' # ext"
      using n by (simp add: fileExtension_def substring_def)
    with v have "toLowerCase ext \<in> set allowList"
      by (simp add: toLowerCase_def toLowerChar_dot dot_ext_valid)
    with n d show ?thesis unfolding allowedName_def by auto
  next
    case False
    with lastIndexOf_ge [of ?n "CHR ''.''"] have m: "lastIndexOf ?n (CHR ''.'') = - 1" by simp
    then have nd: "CHR ''.'' \<notin> set ?n" by (simp add: lastIndexOf_none)
    from m have "fileExtension f = ?n" by (simp add: fileExtension_def substring_def)
    with v obtain e where "toLowerCase ?n = CHR ''.'' # e" using valid_starts_dot by fastforce
    then obtain x xs where "?n = x # xs" and "toLowerChar x = CHR ''.''"
      by (auto simp: toLowerCase_def)
    with nd show ?thesis by (simp add: toLowerChar_dot_iff)
  qed
next
  assume "allowedName (file_name f)"
  then obtain base ext where n: "file_name f = base @ CHR ''.'' # ext"
    and d: "CHR ''.'' \<notin> set ext" and a: "toLowerCase ext \<in> set allowList"
    unfolding allowedName_def by auto
  have "lastIndexOf (file_name f) (CHR ''.'') = int (length base)"
    using lastIndexOf_append [OF d, of base] n by simp
  then have "fileExtension f = CHR ''.'' # ext"
    using n by (simp add: fileExtension_def substring_def)
  with a show "toLowerCase (fileExtension f) \<in> set validTypes"
    by (simp add: toLowerCase_def toLowerChar_dot dot_ext_valid)
qed

lemma processFileUpload_queue:
  "uploadedFiles (processFileUpload s f) =
     (if allowedName (file_name f) \<and> file_name f \<notin> file_name ` set (uploadedFiles s)
      then uploadedFiles s @ [f] else uploadedFiles s)"
proof -
  have "findIndex (\<lambda>g. file_name g = file_name f \<and> file_size g = file_size g) (uploadedFiles s) = - 1
        \<longleftrightarrow> file_name f \<notin> file_name ` set (uploadedFiles s)"
    unfolding findIndex_none by (simp add: image_iff) metis
  then show ?thesis
    by (simp add: processFileUpload_def extension_test_iff Let_def)
qed

lemma queueOk_step: "queueOk (uploadedFiles s) \<Longrightarrow> queueOk (uploadedFiles (processFileUpload s f))"
  by (auto simp: processFileUpload_queue queueOk_def)

lemma queueOk_processFiles:
  "queueOk (uploadedFiles s) \<Longrightarrow> queueOk (uploadedFiles (processFiles s fs))"
  unfolding processFiles_def
  by (induction fs arbitrary: s) (simp_all add: queueOk_step)

lemma distinct_name_size:
  "distinct (map file_name q) \<Longrightarrow> distinct (map (\<lambda>g. (file_name g, file_size g)) q)"
  by (induction q) auto

text \<open>
  C5: after any sequence of \<open>processFileUpload\<close> calls from an empty queue, no two
  queued entries have the same (name, size) pair and every queued entry has an extension of
  the allow-list (compared without regard to letter case, as the source does); a file whose
  extension is not allowed leaves the queue as it was, in any state, and an alert is shown.
\<close>

theorem attachment_queue_invariant:
  "uploadedFiles s = [] \<Longrightarrow>
     distinct (map (\<lambda>g. (file_name g, file_size g)) (uploadedFiles (processFiles s fs)))
     \<and> (\<forall>g \<in> set (uploadedFiles (processFiles s fs)). allowedName (file_name g))
     \<and> (\<not> allowedName (file_name f) \<longrightarrow>
          uploadedFiles (processFileUpload t f) = uploadedFiles t
          \<and> alerts (processFileUpload t f) = alerts t @ [typeAlert])"
proof -
  assume e: "uploadedFiles s = []"
  then have "queueOk (uploadedFiles s)" by (simp add: queueOk_def)
  then have ok: "queueOk (uploadedFiles (processFiles s fs))" by (rule queueOk_processFiles)
  have r: "\<not> allowedName (file_name f) \<longrightarrow>
          uploadedFiles (processFileUpload t f) = uploadedFiles t
          \<and> alerts (processFileUpload t f) = alerts t @ [typeAlert]"
    by (simp add: processFileUpload_def extension_test_iff)
  from ok r show ?thesis
    by (simp add: queueOk_def distinct_name_size list_all_iff)
qed

lemma queueFiles_result:
  "uploadedFiles (processFiles emptyState queueFiles) = [mkFile ''a.pdf'' 1, mkFile ''B.PNG'' 4]"
  by code_simp

lemma exe_rejected: "\<not> allowedName (file_name (mkFile ''report.exe'' 3))"
proof -
  have "\<not> toLowerCase (fileExtension (mkFile ''report.exe'' 3)) \<in> set validTypes"
    by code_simp
  then show ?thesis by (simp add: extension_test_iff)
qed

theorem attachment_queue_invariant_witness:
  "uploadedFiles emptyState = []
   \<and> uploadedFiles (processFiles emptyState queueFiles) = [mkFile ''a.pdf'' 1, mkFile ''B.PNG'' 4]
   \<and> distinct (map (\<lambda>g. (file_name g, file_size g)) (uploadedFiles (processFiles emptyState queueFiles)))
   \<and> allowedName (file_name (mkFile ''a.pdf'' 1)) \<and> allowedName (file_name (mkFile ''B.PNG'' 4))
   \<and> \<not> allowedName (file_name (mkFile ''report.exe'' 3))
   \<and> uploadedFiles (processFileUpload emptyState (mkFile ''report.exe'' 3)) = []
   \<and> alerts (processFileUpload emptyState (mkFile ''report.exe'' 3)) = [typeAlert]"
proof -
  have e: "uploadedFiles emptyState = []" by (simp add: emptyState_def)
  have a: "alerts emptyState = []" by (simp add: emptyState_def)
  note t = attachment_queue_invariant [OF e, of queueFiles "mkFile ''report.exe'' 3" emptyState]
  from t e a exe_rejected queueFiles_result show ?thesis by simp
qed

text \<open>
  C1: the source skips a file whenever a queued entry has the same name, whatever the sizes
  (\<open>processFileUpload_queue\<close>). With \<open>a.pdf\<close> of size 1 queued, \<open>a.pdf\<close> of size 2
  has an allowed type and no queued entry has both its name and its size, yet it is not
  appended.
\<close>

theorem dedup_same_name_other_size:
  "uploadedFiles (processFileUpload (emptyState\<lparr>uploadedFiles := [mkFile ''a.pdf'' 1]\<rparr>) (mkFile ''a.pdf'' 2))
     = [mkFile ''a.pdf'' 1]
   \<and> (file_name (mkFile ''a.pdf'' 1), file_size (mkFile ''a.pdf'' 1))
       \<noteq> (file_name (mkFile ''a.pdf'' 2), file_size (mkFile ''a.pdf'' 2))
   \<and> toLowerCase (fileExtension (mkFile ''a.pdf'' 2)) \<in> set validTypes"
  by code_simp

text \<open>
  C10: \<open>removeFile\<close> with an index below 0 or at least the queue length returns the state
  unchanged; with an index in range the queue loses exactly the entry at that position, the
  entries before and after it staying in order.
\<close>

theorem removeFile_spec:
  "(index < 0 \<or> int (length (uploadedFiles s)) \<le> index \<longrightarrow> removeFile s index = s)
   \<and> (0 \<le> index \<and> index < int (length (uploadedFiles s)) \<longrightarrow>
        uploadedFiles (removeFile s index)
          = take (nat index) (uploadedFiles s) @ drop (Suc (nat index)) (uploadedFiles s)
        \<and> Suc (length (uploadedFiles (removeFile s index))) = length (uploadedFiles s))"
proof (cases "0 \<le> index \<and> index < int (length (uploadedFiles s))")
  case False
  then have "removeFile s index = s" unfolding removeFile_def by (simp only: if_False)
  with False show ?thesis by blast
next
  case True
  let ?q = "take (nat index) (uploadedFiles s) @ drop (Suc (nat index)) (uploadedFiles s)"
  from True have n: "nat index < length (uploadedFiles s)" by linarith
  then have l: "Suc (length ?q) = length (uploadedFiles s)" by (simp add: min_def)
  have u: "uploadedFiles (removeFile s index) = ?q"
    using True unfolding removeFile_def Let_def by (simp only: if_True) simp
  from True u l show ?thesis by (simp only:) simp
qed

theorem removeFile_spec_witness:
  "((- 1 :: int) < 0 \<or> int (length (uploadedFiles threeFiles)) \<le> - 1)
   \<and> removeFile threeFiles (- 1) = threeFiles
   \<and> ((3 :: int) < 0 \<or> int (length (uploadedFiles threeFiles)) \<le> 3)
   \<and> removeFile threeFiles 3 = threeFiles
   \<and> (0 :: int) \<le> 1 \<and> 1 < int (length (uploadedFiles threeFiles))
   \<and> uploadedFiles (removeFile threeFiles 1) = [mkFile ''a.pdf'' 1, mkFile ''c.png'' 3]"
proof -
  have l: "uploadedFiles threeFiles = [mkFile ''a.pdf'' 1, mkFile ''b.txt'' 2, mkFile ''c.png'' 3]"
    by (simp add: threeFiles_def)
  from removeFile_spec [of "- 1" threeFiles] removeFile_spec [of 3 threeFiles]
    removeFile_spec [of 1 threeFiles] l
  show ?thesis by simp
qed

section \<open>Guards, credential and model changes\<close>

lemma trim_whitespace: "(\<forall>c \<in> set t. isWhiteSpace c) \<Longrightarrow> trim t = []"
proof -
  assume a: "\<forall>c \<in> set t. isWhiteSpace c"
  then have d: "dropWhile isWhiteSpace t = []" by (induction t) auto
  show ?thesis unfolding trim_def d by simp
qed

text \<open>
  C4: a submit whose input is empty or white space only, with an empty queue, returns the
  state it was given: transcript, loading flag and queue are unchanged.
\<close>

theorem empty_submit_noop:
  "(\<forall>c \<in> set (messageInputValue s). isWhiteSpace c) \<and> uploadedFiles s = [] \<Longrightarrow>
     handleSendMessage env s = s
     \<and> messages (handleSendMessage env s) = messages s
     \<and> isLoading (handleSendMessage env s) = isLoading s
     \<and> uploadedFiles (handleSendMessage env s) = uploadedFiles s"
proof -
  assume h: "(\<forall>c \<in> set (messageInputValue s). isWhiteSpace c) \<and> uploadedFiles s = []"
  then have "trim (messageInputValue s) = []" by (simp add: trim_whitespace)
  with h have "handleSendMessage env s = s" by (simp add: handleSendMessage_def)
  then show ?thesis by simp
qed

theorem empty_submit_noop_witness:
  "list_all isWhiteSpace (messageInputValue blankInput) \<and> uploadedFiles blankInput = []
   \<and> messageInputValue blankInput \<noteq> []
   \<and> handleSendMessage quietEnv blankInput = blankInput
   \<and> messages (handleSendMessage quietEnv blankInput) = [userEntry 5 ''hi'']"
proof -
  have h: "(\<forall>c \<in> set (messageInputValue blankInput). isWhiteSpace c) \<and> uploadedFiles blankInput = []"
    by (simp add: blankInput_def chatting_def emptyState_def isWhiteSpace_def)
  have m: "messages blankInput = [userEntry 5 ''hi'']"
    by (simp add: blankInput_def chatting_def)
  have n: "messageInputValue blankInput \<noteq> []" by (simp add: blankInput_def)
  from empty_submit_noop [OF h, of quietEnv] h m n show ?thesis by (simp add: list_all_iff)
qed

lemma saveApiKey_change:
  "trim (apiKeyInputValue s) \<noteq> [] \<Longrightarrow>
     chatSession (saveApiKey now s) = None
     \<and> API_KEY (saveApiKey now s) = trim (apiKeyInputValue s)
     \<and> messages (saveApiKey now s) =
         messages s @ [\<lparr>msg_id = now, msg_role = Model, msg_text = keyUpdatedMessage,
                        msg_tokenCounts = None\<rparr>]"
  by (simp add: saveApiKey_def Let_def)

lemma resetSession_result:
  "chatSession (resetSession now s) = None
   \<and> uploadedFiles (resetSession now s) = []
   \<and> messages (resetSession now s) =
       [\<lparr>msg_id = now, msg_role = Model,
         msg_text = (if API_KEY s = [] then welcomeMessage @ setupNotice else welcomeMessage),
         msg_tokenCounts = None\<rparr>]"
  by (simp add: resetSession_def initializeChat_def removeAllFiles_def)

text \<open>
  C2, as amended: saving a non-empty API key resets the chat session handle and keeps every
  earlier message in place, one confirmation message being appended. A model change that
  the user confirms resets the chat session handle too, but goes through \<open>resetSession\<close>:
  the transcript becomes the single greeting and the queue is emptied.
\<close>

theorem credential_or_confirmed_model_change:
  "(trim (apiKeyInputValue s) \<noteq> [] \<longrightarrow>
      chatSession (saveApiKey now s) = None
      \<and> API_KEY (saveApiKey now s) = trim (apiKeyInputValue s)
      \<and> messages (saveApiKey now s) =
          messages s @ [\<lparr>msg_id = now, msg_role = Model, msg_text = keyUpdatedMessage,
                         msg_tokenCounts = None\<rparr>])
   \<and> chatSession (modelSelectChange v True now s) = None
   \<and> modelSelectValue (modelSelectChange v True now s) = v
   \<and> uploadedFiles (modelSelectChange v True now s) = []
   \<and> messages (modelSelectChange v True now s) =
       [\<lparr>msg_id = now, msg_role = Model,
         msg_text = (if API_KEY s = [] then welcomeMessage @ setupNotice else welcomeMessage),
         msg_tokenCounts = None\<rparr>]"
  using saveApiKey_change [of s now] resetSession_result [of now "s\<lparr>modelSelectValue := v\<rparr>"]
  by (simp add: modelSelectChange_def resetSession_def initializeChat_def removeAllFiles_def)

theorem credential_or_confirmed_model_change_witness:
  "trim (apiKeyInputValue newKeyTyped) \<noteq> []
   \<and> chatSession newKeyTyped \<noteq> None
   \<and> chatSession (saveApiKey 9 newKeyTyped) = None
   \<and> API_KEY (saveApiKey 9 newKeyTyped) = ''key2''
   \<and> messages (saveApiKey 9 newKeyTyped) =
       [userEntry 5 ''hi'',
        \<lparr>msg_id = 9, msg_role = Model, msg_text = keyUpdatedMessage, msg_tokenCounts = None\<rparr>]
   \<and> chatSession (modelSelectChange ''gemini-2.5-pro'' True 9 newKeyTyped) = None"
proof -
  have t: "trim (apiKeyInputValue newKeyTyped) = ''key2''" by code_simp
  have c: "chatSession newKeyTyped \<noteq> None" by (simp add: newKeyTyped_def chatting_def)
  have m: "messages newKeyTyped = [userEntry 5 ''hi'']" by (simp add: newKeyTyped_def chatting_def)
  from credential_or_confirmed_model_change [of newKeyTyped 9 "''gemini-2.5-pro''"] t c m
  show ?thesis by simp
qed

text \<open>
  C2 as stated fails on a model change: when the user confirms, the earlier message is gone
  from the transcript; when the user declines, the selector holds the new model and the
  chat session handle is not reset.
\<close>

theorem model_change_counterexample:
  "messages chatting = [userEntry 5 ''hi'']
   \<and> messages (modelSelectChange ''gemini-2.5-pro'' True 9 chatting) =
       [\<lparr>msg_id = 9, msg_role = Model, msg_text = welcomeMessage, msg_tokenCounts = None\<rparr>]
   \<and> userEntry 5 ''hi'' \<notin> set (messages (modelSelectChange ''gemini-2.5-pro'' True 9 chatting))
   \<and> modelSelectValue (modelSelectChange ''gemini-2.5-pro'' False 9 chatting) = ''gemini-2.5-pro''
   \<and> chatSession (modelSelectChange ''gemini-2.5-pro'' False 9 chatting)
       = Some \<lparr>chat_model = ''gemini-2.5-flash''\<rparr>"
  by (simp add: modelSelectChange_def resetSession_def initializeChat_def removeAllFiles_def
      chatting_def emptyState_def userEntry_def)

section \<open>The stream loop\<close>

lemma findIndex_range:
  "findIndex P xs \<noteq> - 1 \<Longrightarrow> 0 \<le> findIndex P xs \<and> nat (findIndex P xs) < length xs"
proof (induction xs)
  case Nil
  then show ?case by simp
next
  case (Cons x xs)
  show ?case
  proof (cases "P x")
    case True
    then show ?thesis by simp
  next
    case False
    with Cons.prems have n: "findIndex P xs \<noteq> - 1" by (auto simp: Let_def split: if_splits)
    from Cons.IH [OF n] False show ?thesis by (simp add: Let_def nat_add_distrib)
  qed
qed

lemma findIndex_ids:
  "map msg_id ms' = map msg_id ms \<Longrightarrow>
     findIndex (\<lambda>m. msg_id m = rid) ms' = findIndex (\<lambda>m. msg_id m = rid) ms"
proof (induction ms arbitrary: ms')
  case Nil
  then show ?case by simp
next
  case (Cons m ms)
  then obtain m' ms'' where e: "ms' = m' # ms''" by (cases ms') auto
  with Cons.prems have "msg_id m' = msg_id m" and "map msg_id ms'' = map msg_id ms" by auto
  with Cons.IH [of ms''] e show ?case by simp
qed

lemma appendFinishReason_prefix: "prefix rt (appendFinishReason c rt)"
  by (simp add: appendFinishReason_def split: option.splits list.splits)

lemma applyChunk_text:
  assumes "chunk_text c = Inr t"
  shows "\<exists>ms'. applyChunk rid c (rt, ms) = Inr (appendFinishReason c (rt @ t), ms')
           \<and> map msg_id ms' = map msg_id ms
           \<and> length ms' = length ms
           \<and> (\<forall>p < length ms.
                (int p = findIndex (\<lambda>m. msg_id m = rid) ms \<longrightarrow>
                   msg_text (ms' ! p) = appendFinishReason c (rt @ t))
                \<and> (int p \<noteq> findIndex (\<lambda>m. msg_id m = rid) ms \<longrightarrow> ms' ! p = ms ! p))"
proof (cases "findIndex (\<lambda>m. msg_id m = rid) ms = - 1")
  case True
  with assms have "applyChunk rid c (rt, ms) = Inr (appendFinishReason c (rt @ t), ms)"
    by (simp add: applyChunk_def Let_def)
  with True show ?thesis by auto
next
  case False
  let ?i = "nat (findIndex (\<lambda>m. msg_id m = rid) ms)"
  let ?rt = "appendFinishReason c (rt @ t)"
  let ?m1 = "(ms ! ?i)\<lparr>msg_text := ?rt\<rparr>"
  let ?m2 = "case chunk_usageMetadata c of None \<Rightarrow> ?m1
             | Some u \<Rightarrow> ?m1\<lparr>msg_tokenCounts :=
                 Some \<lparr>tc_input = promptTokenCount u, tc_output = candidatesTokenCount u,
                       tc_total = totalTokenCount u\<rparr>\<rparr>"
  from findIndex_range [OF False] have r: "0 \<le> findIndex (\<lambda>m. msg_id m = rid) ms" "?i < length ms"
    by simp_all
  have a: "applyChunk rid c (rt, ms) = Inr (?rt, ms[?i := ?m2])"
    using assms False by (simp add: applyChunk_def Let_def)
  have t2: "msg_text ?m2 = ?rt" by (simp split: option.splits)
  have i2: "msg_id ?m2 = msg_id (ms ! ?i)" by (simp split: option.splits)
  have ids: "map msg_id (ms[?i := ?m2]) = map msg_id ms"
    using r i2 by (simp add: map_update list_update_same_conv)
  have nth: "\<forall>p < length ms.
                (int p = findIndex (\<lambda>m. msg_id m = rid) ms \<longrightarrow> msg_text (ms[?i := ?m2] ! p) = ?rt)
                \<and> (int p \<noteq> findIndex (\<lambda>m. msg_id m = rid) ms \<longrightarrow> ms[?i := ?m2] ! p = ms ! p)"
  proof (intro allI impI conjI)
    fix p assume p: "p < length ms" and e: "int p = findIndex (\<lambda>m. msg_id m = rid) ms"
    then have "p = ?i" by simp
    with p t2 show "msg_text (ms[?i := ?m2] ! p) = ?rt" by simp
  next
    fix p assume p: "p < length ms" and e: "int p \<noteq> findIndex (\<lambda>m. msg_id m = rid) ms"
    with r have "p \<noteq> ?i" by auto
    then show "ms[?i := ?m2] ! p = ms ! p" by simp
  qed
  from a ids nth show ?thesis by simp
qed

lemma applyChunk_throws: "chunk_text c = Inl e \<Longrightarrow> applyChunk rid c st = Inl e"
  by (simp add: applyChunk_def)

lemma applyChunk_Inr:
  "applyChunk rid c st = Inr st' \<Longrightarrow> \<exists>t. chunk_text c = Inr t"
  by (cases "chunk_text c") (simp_all add: applyChunk_def)

lemma loopInv_step:
  assumes inv: "loopInv rid p st" and a: "applyChunk rid c st = Inr st'"
  shows "loopInv rid p st' \<and> prefix (msg_text (snd st ! p)) (msg_text (snd st' ! p))"
proof -
  obtain rt ms where st: "st = (rt, ms)" by (cases st)
  from a obtain t where t: "chunk_text c = Inr t" using applyChunk_Inr by blast
  from applyChunk_text [OF t, of rid rt ms] a st
  obtain ms' where st': "st' = (appendFinishReason c (rt @ t), ms')"
    and ids: "map msg_id ms' = map msg_id ms" and len: "length ms' = length ms"
    and nth: "\<forall>p < length ms.
                (int p = findIndex (\<lambda>m. msg_id m = rid) ms \<longrightarrow>
                   msg_text (ms' ! p) = appendFinishReason c (rt @ t))
                \<and> (int p \<noteq> findIndex (\<lambda>m. msg_id m = rid) ms \<longrightarrow> ms' ! p = ms ! p)"
    by auto
  from inv st have p: "p < length ms"
    and tx: "int p = findIndex (\<lambda>m. msg_id m = rid) ms \<longrightarrow> msg_text (ms ! p) = rt"
    by (simp_all add: loopInv_def)
  have fi: "findIndex (\<lambda>m. msg_id m = rid) ms' = findIndex (\<lambda>m. msg_id m = rid) ms"
    using ids by (rule findIndex_ids)
  have pre: "prefix rt (appendFinishReason c (rt @ t))"
    using appendFinishReason_prefix [of "rt @ t" c] by (meson prefix_order.trans prefixI)
  show ?thesis
  proof (cases "int p = findIndex (\<lambda>m. msg_id m = rid) ms")
    case True
    with nth p have "msg_text (ms' ! p) = appendFinishReason c (rt @ t)" by blast
    with True tx pre p len fi st st' show ?thesis by (simp add: loopInv_def)
  next
    case False
    with nth p have "ms' ! p = ms ! p" by blast
    with False p len fi st st' show ?thesis by (simp add: loopInv_def)
  qed
qed

lemma streamTrace_grows:
  "loopInv rid p st \<Longrightarrow> Suc i < length (snd st # streamTrace rid cs st) \<Longrightarrow>
     prefix (msg_text ((snd st # streamTrace rid cs st) ! i ! p))
            (msg_text ((snd st # streamTrace rid cs st) ! Suc i ! p))"
proof (induction cs arbitrary: st i)
  case Nil
  then show ?case by simp
next
  case (Cons c cs)
  show ?case
  proof (cases "applyChunk rid c st")
    case (Inl e)
    with Cons.prems show ?thesis by simp
  next
    case (Inr st')
    from loopInv_step [OF Cons.prems(1) Inr]
    have inv': "loopInv rid p st'" and pre: "prefix (msg_text (snd st ! p)) (msg_text (snd st' ! p))"
      by simp_all
    show ?thesis
    proof (cases i)
      case 0
      with Inr pre show ?thesis by simp
    next
      case (Suc j)
      with Cons.prems(2) Inr have "Suc j < length (snd st' # streamTrace rid cs st')" by simp
      from Cons.IH [OF inv' this] Suc Inr show ?thesis by simp
    qed
  qed
qed

lemma processStream_no_throw:
  "(\<forall>c \<in> set cs. \<exists>t. chunk_text c = Inr t) \<Longrightarrow> snd (processStream rid cs st) = None"
proof (induction cs arbitrary: st)
  case Nil
  then show ?case by simp
next
  case (Cons c cs)
  then obtain t where t: "chunk_text c = Inr t" by auto
  obtain rt ms where st: "st = (rt, ms)" by (cases st)
  from applyChunk_text [OF t, of rid rt ms] obtain st' where "applyChunk rid c st = Inr st'"
    using st by auto
  with Cons show ?case by simp
qed

lemma setInputTokens_frame:
  "length (setInputTokens rid n ms) = length ms
   \<and> map msg_text (setInputTokens rid n ms) = map msg_text ms
   \<and> map msg_role (setInputTokens rid n ms) = map msg_role ms
   \<and> map msg_id (setInputTokens rid n ms) = map msg_id ms"
proof (cases "findIndex (\<lambda>msg. msg_id msg = rid) ms = - 1")
  case True
  then show ?thesis by (simp add: setInputTokens_def)
next
  case False
  from findIndex_range [OF False] have "nat (findIndex (\<lambda>msg. msg_id msg = rid) ms) < length ms"
    by simp
  then show ?thesis
    by (simp add: setInputTokens_def Let_def map_update list_update_same_conv split: option.splits)
qed

lemma countPhase_frame:
  "length (messages (countPhase env rid parts s)) = length (messages s)
   \<and> map msg_text (messages (countPhase env rid parts s)) = map msg_text (messages s)
   \<and> map msg_role (messages (countPhase env rid parts s)) = map msg_role (messages s)"
  by (simp add: countPhase_def setInputTokens_frame split: sum.splits)

lemma prepare_placeholder:
  assumes "snd (prepare env u s) = Inr (rid, parts)"
  shows "messages (fst (prepare env u s)) \<noteq> []
         \<and> msg_text (last (messages (fst (prepare env u s)))) = []
         \<and> msg_role (last (messages (fst (prepare env u s)))) = Model"
proof -
  let ?s3 = "(pushUserMessage (env_nowUser env) u (s\<lparr>isLoading := True\<rparr>))\<lparr>messageInputValue := []\<rparr>"
  let ?s4 = "case chatSession ?s3 of
               None \<Rightarrow> ?s3\<lparr>chatSession := Some \<lparr>chat_model = modelSelectValue ?s3\<rparr>\<rparr>
             | Some session \<Rightarrow> ?s3"
  let ?s5 = "?s4\<lparr>messages := messages ?s4 @ [placeholder (env_nowResponse env + 1)]\<rparr>"
  from assms obtain files where
    f: "fst (prepare env u s) =
          countPhase env (env_nowResponse env + 1)
            (textParts ?s5 (finalMessage (s\<lparr>isLoading := True\<rparr>) u) @ files) ?s5"
    by (auto simp: prepare_def Let_def split: option.splits sum.splits)
  let ?s6 = "fst (prepare env u s)"
  have len: "length (messages ?s6) = length (messages ?s5)"
    and tx: "map msg_text (messages ?s6) = map msg_text (messages ?s5)"
    and rl: "map msg_role (messages ?s6) = map msg_role (messages ?s5)"
    unfolding f using countPhase_frame by blast+
  have ne: "messages ?s6 \<noteq> []" using len by auto
  have "last (map msg_text (messages ?s6)) = []" unfolding tx by (simp add: placeholder_def)
  with ne have t: "msg_text (last (messages ?s6)) = []" by (simp add: last_map)
  have "last (map msg_role (messages ?s6)) = Model" unfolding rl by (simp add: placeholder_def)
  with ne have r: "msg_role (last (messages ?s6)) = Model" by (simp add: last_map)
  from ne t r show ?thesis by simp
qed

text \<open>
  C6: in a turn that reaches the stream loop, take the transcript at the start of the loop
  and after each chunk application, for any chunks. The placeholder is the last message; it
  is a model message with empty text, and from each of these transcripts to the next its
  text is extended: the old text is a prefix of the new one, so its length never decreases.
\<close>

theorem placeholder_text_grows:
  assumes "snd (prepare env u s) = Inr (rid, parts)"
    and "ms = messages (fst (prepare env u s))"
    and "tr = ms # streamTrace rid cs ([], ms)"
    and "p = length ms - 1"
    and "Suc i < length tr"
  shows "msg_role (ms ! p) = Model \<and> msg_text (ms ! p) = []
         \<and> prefix (msg_text (tr ! i ! p)) (msg_text (tr ! Suc i ! p))
         \<and> length (msg_text (tr ! i ! p)) \<le> length (msg_text (tr ! Suc i ! p))"
proof -
  from prepare_placeholder [OF assms(1)] assms(2)
  have ne: "ms \<noteq> []" and t: "msg_text (last ms) = []" and r: "msg_role (last ms) = Model"
    by simp_all
  from ne assms(4) have l: "last ms = ms ! p" by (simp add: last_conv_nth)
  from ne assms(4) have "p < length ms" by (cases ms) simp_all
  with t l have "loopInv rid p ([], ms)" by (simp add: loopInv_def)
  from streamTrace_grows [OF this, of i cs] assms(3,5)
  have g: "prefix (msg_text (tr ! i ! p)) (msg_text (tr ! Suc i ! p))" by simp
  then have "length (msg_text (tr ! i ! p)) \<le> length (msg_text (tr ! Suc i ! p))"
    by (rule prefix_length_le)
  with g t r l show ?thesis by simp
qed

lemma asking_prepare:
  "snd (prepare quietEnv ''Summarize'' asking) = Inr (101, [TextPart ''Summarize''])"
  by code_simp

lemma asking_trace:
  "map (map msg_text)
     (messages (fst (prepare quietEnv ''Summarize'' asking))
        # streamTrace 101 twoChunks ([], messages (fst (prepare quietEnv ''Summarize'' asking))))
   = [[''hi'', ''Summarize'', ''''], [''hi'', ''Summarize'', ''Net ''],
      [''hi'', ''Summarize'', ''Net income'']]"
  by code_simp

lemma askingTrace_texts:
  "map (map msg_text) askingTrace
   = [[''hi'', ''Summarize'', ''''], [''hi'', ''Summarize'', ''Net ''],
      [''hi'', ''Summarize'', ''Net income'']]"
  unfolding askingTrace_def askingTranscript_def by (rule asking_trace)

theorem placeholder_text_grows_witness:
  "snd (prepare quietEnv ''Summarize'' asking) = Inr (101, [TextPart ''Summarize''])
   \<and> length askingTrace = 3
   \<and> map (\<lambda>t. msg_text (t ! (length askingTranscript - 1))) askingTrace
       = [[], ''Net '', ''Net income'']
   \<and> prefix (msg_text (askingTrace ! 0 ! (length askingTranscript - 1)))
            (msg_text (askingTrace ! Suc 0 ! (length askingTranscript - 1)))
   \<and> prefix (msg_text (askingTrace ! 1 ! (length askingTranscript - 1)))
            (msg_text (askingTrace ! Suc 1 ! (length askingTranscript - 1)))"
proof -
  have len: "length askingTrace = 3" by code_simp
  have texts: "map (\<lambda>t. msg_text (t ! (length askingTranscript - 1))) askingTrace
       = [[], ''Net '', ''Net income'']"
    by code_simp
  have s0: "Suc 0 < length askingTrace" and s1: "Suc 1 < length askingTrace" using len by simp_all
  note g0 = placeholder_text_grows [OF asking_prepare askingTranscript_def askingTrace_def refl s0]
  note g1 = placeholder_text_grows [OF asking_prepare askingTranscript_def askingTrace_def refl s1]
  from g0 g1 asking_prepare len texts show ?thesis by simp
qed

lemma tryBlock_stream:
  "snd (prepare env u s) = Inr (rid, parts) \<Longrightarrow>
     tryBlock env u s = streamPhase env rid parts (fst (prepare env u s))"
  by (cases "prepare env u s") (simp add: tryBlock_def)

lemma tryBlock_prepare_error:
  "snd (prepare env u s) = Inl e \<Longrightarrow> tryBlock env u s = (fst (prepare env u s), Some e)"
  by (cases "prepare env u s") (simp add: tryBlock_def)

lemma streamPhase_ok:
  assumes "env_sendMessageStream env parts = Inr result"
    and "\<forall>d \<in> set (stream_chunks result). \<exists>x. chunk_text d = Inr x"
    and "stream_error result = None"
  shows "snd (streamPhase env rid parts s) = None"
proof -
  let ?s = "s\<lparr>outbox := outbox s @ [parts]\<rparr>"
  obtain st err where p: "processStream rid (stream_chunks result) ([], messages ?s) = (st, err)"
    by (cases "processStream rid (stream_chunks result) ([], messages ?s)")
  from processStream_no_throw [OF assms(2), of rid "([], messages ?s)"] p have "err = None" by simp
  with p assms(1,3) show ?thesis by (simp add: streamPhase_def Let_def)
qed

lemma handleSendMessage_turn:
  assumes "trim (messageInputValue s) \<noteq> [] \<or> uploadedFiles s \<noteq> []" and "API_KEY s \<noteq> []"
  shows "handleSendMessage env s =
           (case tryBlock env (trim (messageInputValue s)) s of
              (s', None) \<Rightarrow> s'\<lparr>isLoading := False\<rparr>
            | (s', Some e) \<Rightarrow> (catchBlock (env_nowError env) e s')\<lparr>isLoading := False\<rparr>)"
  using assms by (auto simp: handleSendMessage_def Let_def)

lemma finishAnnotation_bracketed:
  "\<exists>body. body \<noteq> [] \<and> finishAnnotation r = nl @ nl @ ''**['' @ body @ '']**''"
proof -
  have a: "finishAnnotation ''SAFETY''
             = nl @ nl @ ''**['' @ ''Generation stopped due to Safety Filters'' @ '']**''"
    by (simp add: finishAnnotation_def)
  have b: "finishAnnotation ''MAX_TOKENS''
             = nl @ nl @ ''**['' @ ''Generation stopped due to Max Token Limit'' @ '']**''"
    by (simp add: finishAnnotation_def)
  have c: "r \<noteq> ''SAFETY'' \<Longrightarrow> r \<noteq> ''MAX_TOKENS'' \<Longrightarrow>
             finishAnnotation r = nl @ nl @ ''**['' @ (''Generation stopped: '' @ r) @ '']**''"
    by (simp add: finishAnnotation_def)
  show ?thesis
  proof (cases "r = ''SAFETY''")
    case True
    with a show ?thesis by blast
  next
    case False
    show ?thesis
    proof (cases "r = ''MAX_TOKENS''")
      case True
      with b show ?thesis by blast
    next
      case f: False
      from c [OF False f] show ?thesis
        by (intro exI [of _ "''Generation stopped: '' @ r"]) simp
    qed
  qed
qed

text \<open>
  When \<open>text()\<close> returns, a chunk whose first candidate has a finish reason other than
  \<open>STOP\<close> extends the response text by the chunk's text and a bracketed annotation; when
  no \<open>text()\<close> call of the stream throws and the stream ends without error, the \<open>try\<close>
  block throws nothing and the \<open>catch\<close> block is not run.
\<close>

lemma annotation_when_text_returns:
  assumes "chunk_text c = Inr t"
    and "chunk_candidates c = Some (cand # rest)"
    and "finishReason cand = Some r" and "r \<noteq> []" and "r \<noteq> ''STOP''"
    and "trim (messageInputValue s) \<noteq> [] \<or> uploadedFiles s \<noteq> []" and "API_KEY s \<noteq> []"
    and "snd (prepare env (trim (messageInputValue s)) s) = Inr (rid, parts)"
    and "env_sendMessageStream env parts = Inr result"
    and "c \<in> set (stream_chunks result)"
    and "\<forall>d \<in> set (stream_chunks result). \<exists>x. chunk_text d = Inr x"
    and "stream_error result = None"
  shows "(\<exists>ms'. applyChunk rid c (rt, ms) = Inr (rt @ t @ finishAnnotation r, ms')
                \<and> length ms' = length ms)
         \<and> (\<exists>body. body \<noteq> [] \<and> finishAnnotation r = nl @ nl @ ''**['' @ body @ '']**'')
         \<and> snd (tryBlock env (trim (messageInputValue s)) s) = None
         \<and> handleSendMessage env s
             = (fst (tryBlock env (trim (messageInputValue s)) s))\<lparr>isLoading := False\<rparr>"
proof -
  have fr: "appendFinishReason c (rt @ t) = rt @ t @ finishAnnotation r"
    using assms(2-5) by (simp add: appendFinishReason_def)
  from applyChunk_text [OF assms(1), of rid rt ms] fr
  have one: "\<exists>ms'. applyChunk rid c (rt, ms) = Inr (rt @ t @ finishAnnotation r, ms')
                \<and> length ms' = length ms"
    by auto
  have ok: "snd (tryBlock env (trim (messageInputValue s)) s) = None"
    unfolding tryBlock_stream [OF assms(8)]
    by (rule streamPhase_ok [OF assms(9) assms(11) assms(12)])
  have "handleSendMessage env s
          = (fst (tryBlock env (trim (messageInputValue s)) s))\<lparr>isLoading := False\<rparr>"
    unfolding handleSendMessage_turn [OF assms(6,7)] using ok
    by (cases "tryBlock env (trim (messageInputValue s)) s") simp
  with one ok finishAnnotation_bracketed [of r] show ?thesis by blast
qed

text \<open>With the library's \<open>text()\<close>, a chunk whose finish reason is one of those the library
  treats as a block makes the loop throw, whatever was accumulated: the finish-reason
  branch that follows the call is not reached.\<close>

lemma blocked_chunk_throws:
  "r \<in> set badFinishReasons \<Longrightarrow>
     applyChunk rid (sdkChunk t (Some r)) st
       = Inl (Error (''[GoogleGenerativeAI Error]: Candidate was blocked due to '' @ r))"
  by (simp add: applyChunk_def sdkChunk_def sdkText_def)

lemma other_reason_annotated:
  assumes "r \<notin> set badFinishReasons" and "r \<noteq> []" and "r \<noteq> ''STOP''"
  shows "\<exists>ms'. applyChunk rid (sdkChunk t (Some r)) (rt, ms)
                = Inr (rt @ t @ finishAnnotation r, ms')"
proof -
  have x: "chunk_text (sdkChunk t (Some r)) = Inr t"
    using assms(1) by (simp add: sdkChunk_def sdkText_def)
  have "appendFinishReason (sdkChunk t (Some r)) (rt @ t) = rt @ t @ finishAnnotation r"
    using assms(2,3) by (simp add: appendFinishReason_def sdkChunk_def)
  with applyChunk_text [OF x, of rid rt ms] show ?thesis by auto
qed

text \<open>
  C9: the loop calls \<open>chunk.text()\<close> before it looks at the finish reason, and the
  library's \<open>text()\<close> throws for a chunk blocked by the safety filters. With the answer
  arriving as \<open>Partial\<close> and then a chunk with finish reason \<open>SAFETY\<close>, the second chunk
  is not applied: the placeholder keeps \<open>Partial\<close> without annotation, the \<open>catch\<close> block
  runs and an error message is appended. With finish reason \<open>MAX_TOKENS\<close> in its place the
  annotation is appended and the turn ends without error message.
\<close>

theorem safety_chunk_not_annotated:
  "chunk_candidates (sdkChunk '' answer'' (Some ''SAFETY''))
     = Some [\<lparr>finishReason = Some ''SAFETY''\<rparr>]
   \<and> chunk_text (sdkChunk '' answer'' (Some ''SAFETY''))
       = Inl (Error ''[GoogleGenerativeAI Error]: Candidate was blocked due to SAFETY'')
   \<and> applyChunk 101 (sdkChunk '' answer'' (Some ''SAFETY'')) (''Partial'', askingTranscript)
       = Inl (Error ''[GoogleGenerativeAI Error]: Candidate was blocked due to SAFETY'')
   \<and> stream_chunks blockedStream
       = [sdkChunk ''Partial'' None, sdkChunk '' answer'' (Some ''SAFETY'')]
   \<and> map msg_text (messages (handleSendMessage blockedEnv asking))
       = [''hi'', ''Summarize'', ''Partial'',
          ''Error: [GoogleGenerativeAI Error]: Candidate was blocked due to SAFETY'']
   \<and> map msg_role (messages (handleSendMessage blockedEnv asking))
       = [User, User, Model, Model]
   \<and> stream_chunks cappedStream
       = [sdkChunk ''Partial'' None, sdkChunk '' answer'' (Some ''MAX_TOKENS'')]
   \<and> map msg_text (messages (handleSendMessage cappedEnv asking))
       = [''hi'', ''Summarize'',
          ''Partial answer'' @ nl @ nl @ ''**[Generation stopped due to Max Token Limit]**'']"
  by code_simp

section \<open>The turn\<close>

lemma findIndex_sat: "findIndex P xs \<noteq> - 1 \<Longrightarrow> P (xs ! nat (findIndex P xs))"
proof (induction xs)
  case Nil
  then show ?case by simp
next
  case (Cons x xs)
  show ?case
  proof (cases "P x")
    case True
    then show ?thesis by simp
  next
    case False
    with Cons.prems have n: "findIndex P xs \<noteq> - 1" by (auto simp: Let_def split: if_splits)
    from findIndex_range [OF n] have "0 \<le> findIndex P xs" by simp
    with Cons.IH [OF n] False show ?thesis by (simp add: Let_def nat_add_distrib)
  qed
qed

lemma setInputTokens_nth:
  assumes "p < length ms" and "msg_id (ms ! p) \<noteq> rid \<or> msg_tokenCounts (ms ! p) = None"
  shows "setInputTokens rid n ms ! p = ms ! p"
proof (cases "findIndex (\<lambda>msg. msg_id msg = rid) ms = - 1")
  case True
  then show ?thesis by (simp add: setInputTokens_def)
next
  case False
  show ?thesis
  proof (cases "nat (findIndex (\<lambda>msg. msg_id msg = rid) ms) = p")
    case True
    with findIndex_sat [OF False] have "msg_id (ms ! p) = rid" by simp
    with assms(2) have "msg_tokenCounts (ms ! p) = None" by simp
    with True show ?thesis by (simp add: setInputTokens_def Let_def)
  next
    case False
    then show ?thesis by (simp add: setInputTokens_def Let_def split: option.splits)
  qed
qed

lemma applyChunk_nth:
  assumes "applyChunk rid c (rt, ms) = Inr (rt', ms')" and "p < length ms"
    and "msg_id (ms ! p) \<noteq> rid"
  shows "ms' ! p = ms ! p \<and> length ms' = length ms"
proof -
  from assms(1) obtain t where t: "chunk_text c = Inr t" using applyChunk_Inr by blast
  have ne: "int p \<noteq> findIndex (\<lambda>m. msg_id m = rid) ms"
  proof
    assume e: "int p = findIndex (\<lambda>m. msg_id m = rid) ms"
    then have "findIndex (\<lambda>m. msg_id m = rid) ms \<noteq> - 1" by linarith
    from findIndex_sat [OF this] e [symmetric] assms(3) show False by simp
  qed
  from applyChunk_text [OF t, of rid rt ms] assms(1,2) ne show ?thesis by auto
qed

lemma processStream_nth:
  "p < length (snd st) \<Longrightarrow> msg_id (snd st ! p) \<noteq> rid \<Longrightarrow>
     snd (fst (processStream rid cs st)) ! p = snd st ! p
     \<and> length (snd (fst (processStream rid cs st))) = length (snd st)"
proof (induction cs arbitrary: st)
  case Nil
  then show ?case by simp
next
  case (Cons c cs)
  show ?case
  proof (cases "applyChunk rid c st")
    case (Inl e)
    then show ?thesis by simp
  next
    case (Inr st')
    obtain rt ms where st: "st = (rt, ms)" by (cases st)
    obtain rt' ms' where st': "st' = (rt', ms')" by (cases st')
    from applyChunk_nth [of rid c rt ms rt' ms' p] Inr st st' Cons.prems
    have k: "ms' ! p = ms ! p" and l: "length ms' = length ms" by simp_all
    with Cons.prems st st' have "p < length (snd st')" and "msg_id (snd st' ! p) \<noteq> rid"
      by simp_all
    from Cons.IH [OF this] Inr k l st st' show ?thesis by simp
  qed
qed

lemma streamPhase_frame:
  "outbox (fst (streamPhase env rid parts s)) = outbox s @ [parts]
   \<and> API_KEY (fst (streamPhase env rid parts s)) = API_KEY s"
  by (simp add: streamPhase_def Let_def removeAllFiles_def
      split: sum.splits prod.splits option.splits)

lemma streamPhase_nth:
  assumes "p < length (messages s)" and "msg_id (messages s ! p) \<noteq> rid"
  shows "messages (fst (streamPhase env rid parts s)) ! p = messages s ! p
         \<and> p < length (messages (fst (streamPhase env rid parts s)))"
proof -
  let ?s = "s\<lparr>outbox := outbox s @ [parts]\<rparr>"
  have k: "\<And>cs. snd (fst (processStream rid cs ([], messages ?s))) ! p = messages s ! p
         \<and> length (snd (fst (processStream rid cs ([], messages ?s)))) = length (messages s)"
    using processStream_nth [of p "([], messages ?s)" rid] assms by simp
  show ?thesis
  proof (cases "env_sendMessageStream env parts")
    case (Inl e)
    with assms show ?thesis by (simp add: streamPhase_def Let_def)
  next
    case (Inr result)
    obtain st err where p: "processStream rid (stream_chunks result) ([], messages ?s) = (st, err)"
      by (cases "processStream rid (stream_chunks result) ([], messages ?s)")
    with k [of "stream_chunks result"] assms(1)
    have "snd st ! p = messages s ! p" and "p < length (snd st)" by simp_all
    with Inr p show ?thesis
      by (simp add: streamPhase_def Let_def removeAllFiles_def split: option.splits)
  qed
qed

lemma pushUserMessage_frame:
  "genAI (pushUserMessage now u s) = genAI s
   \<and> API_KEY (pushUserMessage now u s) = API_KEY s
   \<and> chatSession (pushUserMessage now u s) = chatSession s
   \<and> uploadedFiles (pushUserMessage now u s) = uploadedFiles s
   \<and> outbox (pushUserMessage now u s) = outbox s
   \<and> promptPrefixes (pushUserMessage now u s) = promptPrefixes s
   \<and> activePrefix (pushUserMessage now u s) = activePrefix s"
  by (simp add: pushUserMessage_def)

lemma pushUserMessage_messages:
  "u \<noteq> [] \<or> uploadedFiles s \<noteq> [] \<Longrightarrow>
     messages (pushUserMessage now u s) =
       messages s @ [userEntry now (if u \<noteq> [] then u else analyzeSentence (uploadedFiles s))]"
  by (auto simp: pushUserMessage_def)

lemma countPhase_frame2:
  "outbox (countPhase env rid parts s) = outbox s
   \<and> API_KEY (countPhase env rid parts s) = API_KEY s
   \<and> uploadedFiles (countPhase env rid parts s) = uploadedFiles s"
  by (simp add: countPhase_def split: sum.splits)

lemma countPhase_nth:
  "p < length (messages s) \<Longrightarrow>
   msg_id (messages s ! p) \<noteq> rid \<or> msg_tokenCounts (messages s ! p) = None \<Longrightarrow>
     messages (countPhase env rid parts s) ! p = messages s ! p"
  by (simp add: countPhase_def setInputTokens_nth split: sum.splits)

lemma prepare_frame:
  "outbox (fst (prepare env u s)) = outbox s
   \<and> API_KEY (fst (prepare env u s)) = API_KEY s
   \<and> uploadedFiles (fst (prepare env u s)) = uploadedFiles s"
  by (simp add: prepare_def Let_def pushUserMessage_frame countPhase_frame2
      split: option.splits sum.splits)

lemma finalMessage_cong:
  "activePrefix s' = activePrefix s \<Longrightarrow> promptPrefixes s' = promptPrefixes s \<Longrightarrow>
     uploadedFiles s' = uploadedFiles s \<Longrightarrow> finalMessage s' u = finalMessage s u"
  by (simp add: finalMessage_def getActivePrefixContent_def Let_def)

lemma textParts_cong:
  "uploadedFiles s' = uploadedFiles s \<Longrightarrow> textParts s' t = textParts s t"
  by (simp add: textParts_def)

lemma fileParts_FileData:
  "fileParts te ms = Inr ps \<Longrightarrow> \<forall>q \<in> set ps. \<exists>m uri. q = FileData m uri"
proof (induction ms arbitrary: ps)
  case Nil
  then show ?case by simp
next
  case (Cons a ms)
  show ?case
  proof (cases a)
    case None
    with Cons.prems show ?thesis by simp
  next
    case (Some fm)
    with Cons.prems obtain ps' where "fileParts te ms = Inr ps'"
      and "ps = FileData (meta_mimeType fm) (meta_uri fm) # ps'"
      by (auto split: sum.splits)
    with Cons.IH [of ps'] show ?thesis by auto
  qed
qed

lemma uploadPhase_FileData:
  "uploadPhase env s = Inr ps \<Longrightarrow> \<forall>q \<in> set ps. \<exists>m uri. q = FileData m uri"
  by (auto simp: uploadPhase_def dest: fileParts_FileData split: if_splits sum.splits)

lemma prepare_parts:
  assumes "snd (prepare env u s) = Inr (rid, parts)"
  shows "rid = env_nowResponse env + 1
         \<and> (\<exists>files. parts = textParts s (finalMessage s u) @ files
               \<and> (\<forall>q \<in> set files. \<exists>m uri. q = FileData m uri))"
proof -
  let ?s3 = "(pushUserMessage (env_nowUser env) u (s\<lparr>isLoading := True\<rparr>))\<lparr>messageInputValue := []\<rparr>"
  let ?s4 = "case chatSession ?s3 of
               None \<Rightarrow> ?s3\<lparr>chatSession := Some \<lparr>chat_model = modelSelectValue ?s3\<rparr>\<rparr>
             | Some session \<Rightarrow> ?s3"
  let ?s5 = "?s4\<lparr>messages := messages ?s4 @ [placeholder (env_nowResponse env + 1)]\<rparr>"
  from assms obtain files where r: "rid = env_nowResponse env + 1"
    and p: "parts = textParts ?s5 (finalMessage (s\<lparr>isLoading := True\<rparr>) u) @ files"
    and up: "uploadPhase env ?s5 = Inr files"
    by (auto simp: prepare_def Let_def split: option.splits sum.splits)
  have u5: "uploadedFiles ?s5 = uploadedFiles s"
    by (simp add: pushUserMessage_frame split: option.splits)
  have "textParts ?s5 (finalMessage (s\<lparr>isLoading := True\<rparr>) u) = textParts s (finalMessage s u)"
    using textParts_cong [OF u5] finalMessage_cong [of "s\<lparr>isLoading := True\<rparr>" s u] by simp
  with p r uploadPhase_FileData [OF up] show ?thesis by blast
qed

lemma prepare_user:
  assumes "u \<noteq> [] \<or> uploadedFiles s \<noteq> []"
  shows "length (messages s) < length (messages (fst (prepare env u s)))
         \<and> messages (fst (prepare env u s)) ! length (messages s)
             = userEntry (env_nowUser env) (if u \<noteq> [] then u else analyzeSentence (uploadedFiles s))"
proof -
  let ?e = "userEntry (env_nowUser env) (if u \<noteq> [] then u else analyzeSentence (uploadedFiles s))"
  let ?s3 = "(pushUserMessage (env_nowUser env) u (s\<lparr>isLoading := True\<rparr>))\<lparr>messageInputValue := []\<rparr>"
  let ?s4 = "case chatSession ?s3 of
               None \<Rightarrow> ?s3\<lparr>chatSession := Some \<lparr>chat_model = modelSelectValue ?s3\<rparr>\<rparr>
             | Some session \<Rightarrow> ?s3"
  let ?s5 = "?s4\<lparr>messages := messages ?s4 @ [placeholder (env_nowResponse env + 1)]\<rparr>"
  have m3: "messages ?s3 = messages s @ [?e]"
    using pushUserMessage_messages [of u "s\<lparr>isLoading := True\<rparr>" "env_nowUser env"] assms
    by simp
  have "messages ?s4 = messages ?s3" by (cases "chatSession ?s3") simp_all
  then have m5: "messages ?s5 = messages s @ [?e, placeholder (env_nowResponse env + 1)]"
    unfolding m3 by simp
  have id: "msg_tokenCounts ?e = None" by (simp add: userEntry_def)
  have c: "\<And>parts. messages (countPhase env (env_nowResponse env + 1) parts ?s5) ! length (messages s) = ?e
            \<and> length (messages s) < length (messages (countPhase env (env_nowResponse env + 1) parts ?s5))"
  proof -
    fix parts
    have l: "length (messages s) < length (messages ?s5)" unfolding m5 by simp
    have n: "messages ?s5 ! length (messages s) = ?e" unfolding m5 by (simp add: nth_append)
    from countPhase_nth [OF l, of "env_nowResponse env + 1" env parts] n id
    have "messages (countPhase env (env_nowResponse env + 1) parts ?s5) ! length (messages s) = ?e"
      by simp
    moreover have "length (messages s) < length (messages (countPhase env (env_nowResponse env + 1) parts ?s5))"
      using l countPhase_frame [of env "env_nowResponse env + 1" parts ?s5] by simp
    ultimately show "messages (countPhase env (env_nowResponse env + 1) parts ?s5) ! length (messages s) = ?e
            \<and> length (messages s) < length (messages (countPhase env (env_nowResponse env + 1) parts ?s5))"
      by simp
  qed
  show ?thesis
  proof (cases "genAI ?s3")
    case None
    then have "fst (prepare env u s) = ?s3" by (simp add: prepare_def Let_def)
    with m3 show ?thesis by simp
  next
    case (Some client)
    show ?thesis
    proof (cases "uploadPhase env ?s5")
      case (Inl e)
      with Some have "fst (prepare env u s) = ?s5" by (simp add: prepare_def Let_def)
      with m5 show ?thesis by (simp add: nth_append)
    next
      case (Inr files)
      with Some have "fst (prepare env u s)
          = countPhase env (env_nowResponse env + 1)
              (textParts ?s5 (finalMessage (s\<lparr>isLoading := True\<rparr>) u) @ files) ?s5"
        by (simp add: prepare_def Let_def)
      with c [of "textParts ?s5 (finalMessage (s\<lparr>isLoading := True\<rparr>) u) @ files"]
      show ?thesis by simp
    qed
  qed
qed

lemma catchBlock_frame:
  "messages (catchBlock now e s) = messages s @ [errorEntry now e]
   \<and> outbox (catchBlock now e s) = outbox s
   \<and> uploadedFiles (catchBlock now e s) = uploadedFiles s
   \<and> API_KEY (catchBlock now e s) = (if invalidKey e then [] else API_KEY s)"
  by (simp add: catchBlock_def Let_def)

lemma handleSendMessage_fields:
  assumes "trim (messageInputValue s) \<noteq> [] \<or> uploadedFiles s \<noteq> []" and "API_KEY s \<noteq> []"
  shows "messages (handleSendMessage env s) =
           messages (fst (tryBlock env (trim (messageInputValue s)) s))
             @ (case snd (tryBlock env (trim (messageInputValue s)) s) of
                  None \<Rightarrow> [] | Some e \<Rightarrow> [errorEntry (env_nowError env) e])
         \<and> outbox (handleSendMessage env s)
             = outbox (fst (tryBlock env (trim (messageInputValue s)) s))
         \<and> uploadedFiles (handleSendMessage env s)
             = uploadedFiles (fst (tryBlock env (trim (messageInputValue s)) s))
         \<and> isLoading (handleSendMessage env s) = False
         \<and> API_KEY (handleSendMessage env s) =
             (case snd (tryBlock env (trim (messageInputValue s)) s) of
                None \<Rightarrow> API_KEY (fst (tryBlock env (trim (messageInputValue s)) s))
              | Some e \<Rightarrow> if invalidKey e then []
                  else API_KEY (fst (tryBlock env (trim (messageInputValue s)) s)))"
proof -
  obtain s' err where t: "tryBlock env (trim (messageInputValue s)) s = (s', err)"
    by (cases "tryBlock env (trim (messageInputValue s)) s")
  show ?thesis
    unfolding handleSendMessage_turn [OF assms] t
    by (cases err) (simp_all add: catchBlock_frame)
qed

lemma tryBlock_outbox:
  assumes "snd (prepare env u s) = Inr (rid, parts)"
  shows "outbox (fst (tryBlock env u s)) = outbox s @ [parts]"
  unfolding tryBlock_stream [OF assms] using streamPhase_frame [of env rid parts "fst (prepare env u s)"]
    prepare_frame [of env u s] by simp

lemma tryBlock_user:
  assumes "u \<noteq> [] \<or> uploadedFiles s \<noteq> []" and "env_nowUser env \<le> env_nowResponse env"
  shows "length (messages s) < length (messages (fst (tryBlock env u s)))
         \<and> messages (fst (tryBlock env u s)) ! length (messages s)
             = userEntry (env_nowUser env) (if u \<noteq> [] then u else analyzeSentence (uploadedFiles s))"
proof (cases "snd (prepare env u s)")
  case (Inl e)
  from tryBlock_prepare_error [OF Inl] prepare_user [OF assms(1)] show ?thesis by simp
next
  case (Inr b)
  obtain rid parts where b: "b = (rid, parts)" by (cases b)
  with Inr have p: "snd (prepare env u s) = Inr (rid, parts)" by simp
  from prepare_parts [OF p] have rid: "rid = env_nowResponse env + 1" by simp
  from prepare_user [OF assms(1)]
  have l: "length (messages s) < length (messages (fst (prepare env u s)))"
    and n: "messages (fst (prepare env u s)) ! length (messages s)
             = userEntry (env_nowUser env) (if u \<noteq> [] then u else analyzeSentence (uploadedFiles s))"
    by simp_all
  have "msg_id (messages (fst (prepare env u s)) ! length (messages s)) \<noteq> rid"
    unfolding n rid using assms(2) by (simp add: userEntry_def)
  from streamPhase_nth [OF l this, of env parts] n show ?thesis
    unfolding tryBlock_stream [OF p] by simp
qed

section \<open>Uploads and the request\<close>

lemma uploadFileToGemini_key:
  "API_KEY s' = API_KEY s \<Longrightarrow> uploadFileToGemini s' net f = uploadFileToGemini s net f"
  by (simp add: uploadFileToGemini_def)

lemma uploadAll_key:
  "API_KEY s' = API_KEY s \<Longrightarrow> uploadAll s' net i fs = uploadAll s net i fs"
  by (induction fs arbitrary: i) (simp_all add: uploadFileToGemini_key [of s' s] split: sum.splits)

lemma init_refused:
  "API_KEY s \<noteq> [] \<Longrightarrow> net_init net = Inr r \<Longrightarrow> \<not> init_ok r \<Longrightarrow>
     uploadFileToGemini s net f = Inl (Error (''Failed to initialize upload: '' @ init_text r))"
  by (simp add: uploadFileToGemini_def)

lemma uploadAll_fails:
  "(\<forall>j < length pre. \<exists>m. uploadFileToGemini s (net (i + j)) (pre ! j) = Inr m) \<Longrightarrow>
   uploadFileToGemini s (net (i + length pre)) f = Inl e \<Longrightarrow>
     uploadAll s net i (pre @ f # post)
       = Inl (Error (''Failed to upload '' @ file_name f @ '': '' @ error_message e))"
proof (induction pre arbitrary: i)
  case Nil
  then show ?case by simp
next
  case (Cons g pre)
  from Cons.prems(1) have "\<exists>m. uploadFileToGemini s (net (i + 0)) ((g # pre) ! 0) = Inr m"
    by blast
  then obtain m where m: "uploadFileToGemini s (net i) g = Inr m" by auto
  have a: "\<forall>j < length pre. \<exists>m. uploadFileToGemini s (net (Suc i + j)) (pre ! j) = Inr m"
  proof (intro allI impI)
    fix j assume "j < length pre"
    then have "Suc j < length (g # pre)" by simp
    with Cons.prems(1) have "\<exists>m. uploadFileToGemini s (net (i + Suc j)) ((g # pre) ! Suc j) = Inr m"
      by blast
    then show "\<exists>m. uploadFileToGemini s (net (Suc i + j)) (pre ! j) = Inr m" by simp
  qed
  from Cons.prems(2) have b: "uploadFileToGemini s (net (Suc i + length pre)) f = Inl e" by simp
  from Cons.IH [OF a b] m show ?case by simp
qed

lemma includes_str_middle: "includes_str (a @ b @ c) b"
proof (induction a)
  case Nil
  show ?case
  proof (cases "b @ c")
    case Nil
    then show ?thesis by simp
  next
    case (Cons y ys)
    have "take (length b) (b @ c) = b" by simp
    then have "take (length b) (y # ys) = b" unfolding Cons .
    then have "includes_str (y # ys) b" by simp
    then show ?thesis unfolding Cons [symmetric] by simp
  qed
next
  case (Cons x a)
  then show ?case by simp
qed

lemma uploadOk_result:
  assumes "API_KEY s \<noteq> []" and "uploadOk net"
  shows "\<exists>m. uploadFileToGemini s net f = Inr (Some m)
             \<and> uploadedPart net = FileData (meta_mimeType m) (meta_uri m)"
proof -
  from assms(2) obtain r where i: "net_init net = Inr r" and ok: "init_ok r"
    and u: "case init_uploadUrl r of None \<Rightarrow> False | Some u \<Rightarrow> u \<noteq> []"
    and x: "case net_xhr net of XhrError \<Rightarrow> False
            | XhrLoad status body parsed \<Rightarrow> 200 \<le> status \<and> status < 300
                \<and> (case parsed of Some (Some m) \<Rightarrow> True | _ \<Rightarrow> False)"
    by (auto simp: uploadOk_def split: sum.splits)
  from u obtain url where url: "init_uploadUrl r = Some url" "url \<noteq> []"
    by (auto split: option.splits)
  from x obtain status body m where xl: "net_xhr net = XhrLoad status body (Some (Some m))"
    and st: "200 \<le> status" "status < 300"
    by (auto split: xhrResult.splits option.splits)
  from assms(1) i ok url xl st have "uploadFileToGemini s net f = Inr (Some m)"
    by (simp add: uploadFileToGemini_def)
  moreover from xl have "uploadedPart net = FileData (meta_mimeType m) (meta_uri m)"
    by (simp add: uploadedPart_def)
  ultimately show ?thesis by blast
qed

lemma uploadAll_ok:
  "API_KEY s \<noteq> [] \<Longrightarrow> list_all (\<lambda>j. uploadOk (net j)) [i..<i + length fs] \<Longrightarrow>
     \<exists>ms. uploadAll s net i fs = Inr ms
          \<and> fileParts te ms = Inr (map (\<lambda>j. uploadedPart (net j)) [i..<i + length fs])"
proof (induction fs arbitrary: i)
  case Nil
  then show ?case by simp
next
  case (Cons f fs)
  have "i < i + length (f # fs)" by simp
  from upt_conv_Cons [OF this]
  have split: "[i..<i + length (f # fs)] = i # [Suc i..<Suc i + length fs]" by simp
  from Cons.prems(2) have ok: "uploadOk (net i)"
    and rest: "list_all (\<lambda>j. uploadOk (net j)) [Suc i..<Suc i + length fs]"
    unfolding split by simp_all
  from uploadOk_result [OF Cons.prems(1) ok, of f] obtain m
    where m: "uploadFileToGemini s (net i) f = Inr (Some m)"
      and p: "uploadedPart (net i) = FileData (meta_mimeType m) (meta_uri m)"
    by blast
  from Cons.IH [OF Cons.prems(1) rest] obtain ms
    where a: "uploadAll s net (Suc i) fs = Inr ms"
      and b: "fileParts te ms = Inr (map (\<lambda>j. uploadedPart (net j)) [Suc i..<Suc i + length fs])"
    by blast
  have "uploadAll s net i (f # fs) = Inr (Some m # ms)" using m a by simp
  moreover have "fileParts te (Some m # ms)
      = Inr (map (\<lambda>j. uploadedPart (net j)) [i..<i + length (f # fs)])"
    unfolding split using b p by simp
  ultimately show ?case by blast
qed

lemma uploadOk_succeeds:
  "API_KEY s \<noteq> [] \<Longrightarrow> list_all (\<lambda>j. uploadOk (net j)) [0..<length pre] \<Longrightarrow>
     \<forall>j < length pre. \<exists>m. uploadFileToGemini s (net j) (pre ! j) = Inr m"
proof (intro allI impI)
  fix j assume k: "API_KEY s \<noteq> []" and l: "list_all (\<lambda>j. uploadOk (net j)) [0..<length pre]"
    and j: "j < length pre"
  from l j have "uploadOk (net j)" by (simp add: list_all_iff)
  from uploadOk_result [OF k this, of "pre ! j"]
  show "\<exists>m. uploadFileToGemini s (net j) (pre ! j) = Inr m" by blast
qed

lemma prepare_length:
  assumes "u \<noteq> [] \<or> uploadedFiles s \<noteq> []" and "genAI s = Some client"
  shows "length (messages (fst (prepare env u s))) = length (messages s) + 2
         \<and> localStorageKey (fst (prepare env u s)) = localStorageKey s
         \<and> genAI (fst (prepare env u s)) = genAI s"
proof -
  let ?e = "userEntry (env_nowUser env) (if u \<noteq> [] then u else analyzeSentence (uploadedFiles s))"
  let ?s3 = "(pushUserMessage (env_nowUser env) u (s\<lparr>isLoading := True\<rparr>))\<lparr>messageInputValue := []\<rparr>"
  let ?s4 = "case chatSession ?s3 of
               None \<Rightarrow> ?s3\<lparr>chatSession := Some \<lparr>chat_model = modelSelectValue ?s3\<rparr>\<rparr>
             | Some session \<Rightarrow> ?s3"
  let ?s5 = "?s4\<lparr>messages := messages ?s4 @ [placeholder (env_nowResponse env + 1)]\<rparr>"
  have m3: "messages ?s3 = messages s @ [?e]"
    using pushUserMessage_messages [of u "s\<lparr>isLoading := True\<rparr>" "env_nowUser env"] assms(1)
    by simp
  have "messages ?s4 = messages ?s3" by (cases "chatSession ?s3") simp_all
  then have m5: "length (messages ?s5) = length (messages s) + 2" unfolding m3 by simp
  have l5: "localStorageKey ?s5 = localStorageKey s" and g5: "genAI ?s5 = genAI s"
    by (simp_all add: pushUserMessage_def split: option.splits)
  have g3: "genAI ?s3 = Some client" using assms(2) by (simp add: pushUserMessage_frame)
  have cnt: "\<And>parts. length (messages (countPhase env (env_nowResponse env + 1) parts ?s5))
                 = length (messages ?s5)
             \<and> localStorageKey (countPhase env (env_nowResponse env + 1) parts ?s5) = localStorageKey ?s5
             \<and> genAI (countPhase env (env_nowResponse env + 1) parts ?s5) = genAI ?s5"
    using countPhase_frame by (simp add: countPhase_def split: sum.splits)
  show ?thesis
  proof (cases "uploadPhase env ?s5")
    case (Inl e)
    with g3 have "fst (prepare env u s) = ?s5" by (simp add: prepare_def Let_def)
    with m5 l5 g5 show ?thesis by simp
  next
    case (Inr files)
    with g3 have "fst (prepare env u s)
        = countPhase env (env_nowResponse env + 1)
            (textParts ?s5 (finalMessage (s\<lparr>isLoading := True\<rparr>) u) @ files) ?s5"
      by (simp add: prepare_def Let_def)
    with cnt [of "textParts ?s5 (finalMessage (s\<lparr>isLoading := True\<rparr>) u) @ files"] m5 l5 g5
    show ?thesis by simp
  qed
qed

lemma prepare_upload:
  assumes "genAI s = Some client"
  shows "snd (prepare env u s) =
           (case (if uploadedFiles s \<noteq> [] then
                    (case uploadAll s (env_upload env) 0 (uploadedFiles s) of
                       Inl e \<Rightarrow> Inl e
                     | Inr uploadResults \<Rightarrow> fileParts (env_typeError env) uploadResults)
                  else Inr []) of
              Inl e \<Rightarrow> Inl e
            | Inr files \<Rightarrow> Inr (env_nowResponse env + 1, textParts s (finalMessage s u) @ files))"
proof -
  let ?s3 = "(pushUserMessage (env_nowUser env) u (s\<lparr>isLoading := True\<rparr>))\<lparr>messageInputValue := []\<rparr>"
  let ?s4 = "case chatSession ?s3 of
               None \<Rightarrow> ?s3\<lparr>chatSession := Some \<lparr>chat_model = modelSelectValue ?s3\<rparr>\<rparr>
             | Some session \<Rightarrow> ?s3"
  let ?s5 = "?s4\<lparr>messages := messages ?s4 @ [placeholder (env_nowResponse env + 1)]\<rparr>"
  have k5: "API_KEY ?s5 = API_KEY s" and u5: "uploadedFiles ?s5 = uploadedFiles s"
    by (simp_all add: pushUserMessage_frame split: option.splits)
  have g3: "genAI ?s3 = Some client" using assms by (simp add: pushUserMessage_frame)
  let ?U = "if uploadedFiles s \<noteq> [] then
         (case uploadAll s (env_upload env) 0 (uploadedFiles s) of
            Inl e \<Rightarrow> Inl e
          | Inr uploadResults \<Rightarrow> fileParts (env_typeError env) uploadResults)
       else Inr []"
  have up: "uploadPhase env ?s5 = ?U"
    unfolding uploadPhase_def u5 uploadAll_key [OF k5] by simp
  have tp: "textParts ?s5 (finalMessage (s\<lparr>isLoading := True\<rparr>) u) = textParts s (finalMessage s u)"
    using textParts_cong [OF u5] finalMessage_cong [of "s\<lparr>isLoading := True\<rparr>" s u] by simp
  show ?thesis
  proof (cases ?U)
    case (Inl e)
    have "uploadPhase env ?s5 = Inl e" using up unfolding Inl .
    with g3 have "snd (prepare env u s) = Inl e" by (simp add: prepare_def Let_def)
    then show ?thesis unfolding Inl by simp
  next
    case (Inr files)
    have "uploadPhase env ?s5 = Inr files" using up unfolding Inr .
    with g3 have "snd (prepare env u s)
        = Inr (env_nowResponse env + 1, textParts ?s5 (finalMessage (s\<lparr>isLoading := True\<rparr>) u) @ files)"
      by (simp add: prepare_def Let_def)
    then show ?thesis unfolding Inr tp by simp
  qed
qed

lemma prepare_request:
  assumes "API_KEY s \<noteq> []" and "genAI s = Some client" and "uploadsOk env s"
  shows "snd (prepare env (trim (messageInputValue s)) s)
           = Inr (env_nowResponse env + 1, requestParts env s)"
proof (cases "uploadedFiles s = []")
  case True
  then show ?thesis
    unfolding prepare_upload [OF assms(2)] by (simp add: requestParts_def)
next
  case False
  from assms(3) have "list_all (\<lambda>j. uploadOk (env_upload env j)) [0..<0 + length (uploadedFiles s)]"
    by (simp add: uploadsOk_def)
  from uploadAll_ok [OF assms(1) this, of "env_typeError env"] obtain ms
    where "uploadAll s (env_upload env) 0 (uploadedFiles s) = Inr ms"
      and "fileParts (env_typeError env) ms
            = Inr (map (\<lambda>j. uploadedPart (env_upload env j)) [0..<length (uploadedFiles s)])"
    by auto
  with False show ?thesis
    unfolding prepare_upload [OF assms(2)] by (simp add: requestParts_def)
qed

lemma prepare_upload_failure:
  assumes "API_KEY s \<noteq> []" and "genAI s = Some client"
    and "uploadedFiles s = pre @ f # post"
    and "list_all (\<lambda>j. uploadOk (env_upload env j)) [0..<length pre]"
    and "uploadFileToGemini s (env_upload env (length pre)) f = Inl e0"
  shows "snd (prepare env u s)
           = Inl (Error (''Failed to upload '' @ file_name f @ '': '' @ error_message e0))"
proof -
  have a: "\<forall>j < length pre. \<exists>m. uploadFileToGemini s (env_upload env (0 + j)) (pre ! j) = Inr m"
    using uploadOk_succeeds [OF assms(1,4)] by simp
  have b: "uploadFileToGemini s (env_upload env (0 + length pre)) f = Inl e0"
    using assms(5) by simp
  from uploadAll_fails [OF a b, of post] assms(3) show ?thesis
    unfolding prepare_upload [OF assms(2)] by simp
qed

section \<open>Composition of the request\<close>

text \<open>
  C7, as amended. For a submission that passes both guards, with \<open>u\<close> the trimmed input:
  with an active prefix the composed text is the prefix content, a blank line and \<open>u\<close>,
  or, when \<open>u\<close> is empty, the prefix content, a blank line and the file-analysis sentence;
  with no active prefix it is \<open>u\<close> itself, so that with no prefix and an empty \<open>u\<close> (files
  only) the composed text is empty and the request has no text part. When the uploads
  succeed, the content parts sent are the text part made from the composed text, if it is
  not empty (with the report instruction appended when files are queued), followed by one
  file reference per queued file and nothing else. The message appended after the earlier transcript is the user message
  carrying \<open>u\<close>, or the file-analysis sentence when \<open>u\<close> is empty: its text does not
  depend on the prefix. It is still there, unchanged, when the turn ends, provided the clock
  did not run backwards between the two readings that give the message ids.
\<close>

theorem composed_text_and_user_message:
  assumes "u = trim (messageInputValue s)" and "u \<noteq> [] \<or> uploadedFiles s \<noteq> []"
    and "API_KEY s \<noteq> []"
  shows "(getActivePrefixContent s \<noteq> [] \<and> u \<noteq> [] \<longrightarrow>
            finalMessage s u = getActivePrefixContent s @ nl @ nl @ u)
         \<and> (getActivePrefixContent s \<noteq> [] \<and> u = [] \<longrightarrow>
            finalMessage s u
              = getActivePrefixContent s @ nl @ nl @ analyzeSentence (uploadedFiles s))
         \<and> (getActivePrefixContent s = [] \<and> u \<noteq> [] \<longrightarrow> finalMessage s u = u)
         \<and> (getActivePrefixContent s = [] \<and> u = [] \<longrightarrow>
              finalMessage s u = [] \<and> textParts s (finalMessage s u) = [])
         \<and> (finalMessage s u \<noteq> [] \<longrightarrow>
              textParts s (finalMessage s u)
                = [TextPart (finalMessage s u
                     @ (if uploadedFiles s \<noteq> [] then reportInstruction else []))])
         \<and> (genAI s \<noteq> None \<and> uploadsOk env s \<longrightarrow>
              outbox (handleSendMessage env s)
                = outbox s @ [textParts s (finalMessage s u)
                     @ map (\<lambda>j. uploadedPart (env_upload env j)) [0..<length (uploadedFiles s)]])
         \<and> (snd (prepare env u s) = Inr (rid, parts) \<longrightarrow>
              outbox (handleSendMessage env s) = outbox s @ [parts]
              \<and> (\<exists>files. parts = textParts s (finalMessage s u) @ files
                    \<and> (\<forall>q \<in> set files. \<exists>m uri. q = FileData m uri)))
         \<and> length (messages s) < length (messages (fst (prepare env u s)))
         \<and> messages (fst (prepare env u s)) ! length (messages s)
             = userEntry (env_nowUser env)
                 (if u \<noteq> [] then u else analyzeSentence (uploadedFiles s))
         \<and> (env_nowUser env \<le> env_nowResponse env \<longrightarrow>
              length (messages s) < length (messages (handleSendMessage env s))
              \<and> messages (handleSendMessage env s) ! length (messages s)
                  = userEntry (env_nowUser env)
                      (if u \<noteq> [] then u else analyzeSentence (uploadedFiles s)))"
proof -
  have g: "trim (messageInputValue s) \<noteq> [] \<or> uploadedFiles s \<noteq> []" using assms(1,2) by simp
  note f = handleSendMessage_fields [OF g assms(3), of env, folded assms(1)]
  have c1: "getActivePrefixContent s \<noteq> [] \<and> u \<noteq> [] \<longrightarrow>
            finalMessage s u = getActivePrefixContent s @ nl @ nl @ u"
    by (simp add: finalMessage_def Let_def)
  have c2: "getActivePrefixContent s \<noteq> [] \<and> u = [] \<longrightarrow>
            finalMessage s u = getActivePrefixContent s @ nl @ nl @ analyzeSentence (uploadedFiles s)"
    using assms(2) by (simp add: finalMessage_def Let_def)
  have c3: "getActivePrefixContent s = [] \<and> u \<noteq> [] \<longrightarrow> finalMessage s u = u"
    by (simp add: finalMessage_def Let_def)
  have c3b: "getActivePrefixContent s = [] \<and> u = [] \<longrightarrow>
              finalMessage s u = [] \<and> textParts s (finalMessage s u) = []"
    by (simp add: finalMessage_def Let_def textParts_def)
  have c3c: "finalMessage s u \<noteq> [] \<longrightarrow>
              textParts s (finalMessage s u)
                = [TextPart (finalMessage s u
                     @ (if uploadedFiles s \<noteq> [] then reportInstruction else []))]"
    by (simp add: textParts_def)
  have c4b: "genAI s \<noteq> None \<and> uploadsOk env s \<longrightarrow>
              outbox (handleSendMessage env s)
                = outbox s @ [textParts s (finalMessage s u)
                     @ map (\<lambda>j. uploadedPart (env_upload env j)) [0..<length (uploadedFiles s)]]"
  proof
    assume a: "genAI s \<noteq> None \<and> uploadsOk env s"
    then obtain client where c: "genAI s = Some client" by auto
    from prepare_request [OF assms(3) c, of env] a
    have p: "snd (prepare env u s) = Inr (env_nowResponse env + 1, requestParts env s)"
      unfolding assms(1) by simp
    from f tryBlock_outbox [OF p]
    have "outbox (handleSendMessage env s) = outbox s @ [requestParts env s]" by simp
    then show "outbox (handleSendMessage env s)
                = outbox s @ [textParts s (finalMessage s u)
                     @ map (\<lambda>j. uploadedPart (env_upload env j)) [0..<length (uploadedFiles s)]]"
      unfolding requestParts_def assms(1) .
  qed
  have c4: "snd (prepare env u s) = Inr (rid, parts) \<longrightarrow>
              outbox (handleSendMessage env s) = outbox s @ [parts]
              \<and> (\<exists>files. parts = textParts s (finalMessage s u) @ files
                    \<and> (\<forall>q \<in> set files. \<exists>m uri. q = FileData m uri))"
  proof
    assume p: "snd (prepare env u s) = Inr (rid, parts)"
    from f tryBlock_outbox [OF p] have "outbox (handleSendMessage env s) = outbox s @ [parts]"
      by simp
    with prepare_parts [OF p] show "outbox (handleSendMessage env s) = outbox s @ [parts]
              \<and> (\<exists>files. parts = textParts s (finalMessage s u) @ files
                    \<and> (\<forall>q \<in> set files. \<exists>m uri. q = FileData m uri))"
      by simp
  qed
  have c5: "env_nowUser env \<le> env_nowResponse env \<longrightarrow>
              length (messages s) < length (messages (handleSendMessage env s))
              \<and> messages (handleSendMessage env s) ! length (messages s)
                  = userEntry (env_nowUser env)
                      (if u \<noteq> [] then u else analyzeSentence (uploadedFiles s))"
  proof
    assume "env_nowUser env \<le> env_nowResponse env"
    from tryBlock_user [OF assms(2) this] f
    show "length (messages s) < length (messages (handleSendMessage env s))
              \<and> messages (handleSendMessage env s) ! length (messages s)
                  = userEntry (env_nowUser env)
                      (if u \<noteq> [] then u else analyzeSentence (uploadedFiles s))"
      by (simp add: nth_append)
  qed
  from c1 c2 c3 c3b c3c c4b c4 c5 prepare_user [OF assms(2), of env] show ?thesis by blast
qed

text \<open>
  C7 as stated fails on a submission with no text and one queued file. With an active
  prefix the composed text is the prefix, a blank line and the file-analysis sentence, not
  the sentence alone. With no prefix the composed text is empty, not the sentence, and the
  request holds the file reference only. In both cases the user message of the transcript
  carries the sentence, which is not the (empty) user text.
\<close>

theorem composed_text_counterexample:
  "trim (messageInputValue prefixedFiles) = []
   \<and> uploadedFiles prefixedFiles = [mkFile ''a.pdf'' 1]
   \<and> getActivePrefixContent prefixedFiles = ''List the metrics.''
   \<and> analyzeSentence (uploadedFiles prefixedFiles) = ''Please analyze these 1 files: a.pdf.''
   \<and> finalMessage prefixedFiles (trim (messageInputValue prefixedFiles))
       = ''List the metrics.'' @ nl @ nl @ ''Please analyze these 1 files: a.pdf.''
   \<and> finalMessage prefixedFiles (trim (messageInputValue prefixedFiles))
       \<noteq> analyzeSentence (uploadedFiles prefixedFiles)
   \<and> outbox (handleSendMessage quietEnv prefixedFiles)
       = [[TextPart (''List the metrics.'' @ nl @ nl @ ''Please analyze these 1 files: a.pdf.''
             @ reportInstruction),
           FileData ''application/pdf'' ''files/1'']]
   \<and> msg_role (messages (handleSendMessage quietEnv prefixedFiles) ! 1) = User
   \<and> msg_text (messages (handleSendMessage quietEnv prefixedFiles) ! 1)
       = ''Please analyze these 1 files: a.pdf.''
   \<and> msg_text (messages (handleSendMessage quietEnv prefixedFiles) ! 1)
       \<noteq> trim (messageInputValue prefixedFiles)
   \<and> trim (messageInputValue filesOnly) = []
   \<and> uploadedFiles filesOnly = [mkFile ''a.pdf'' 1]
   \<and> getActivePrefixContent filesOnly = []
   \<and> finalMessage filesOnly (trim (messageInputValue filesOnly)) = []
   \<and> finalMessage filesOnly (trim (messageInputValue filesOnly))
       \<noteq> analyzeSentence (uploadedFiles filesOnly)
   \<and> outbox (handleSendMessage quietEnv filesOnly)
       = [[FileData ''application/pdf'' ''files/1'']]
   \<and> msg_role (messages (handleSendMessage quietEnv filesOnly) ! 1) = User
   \<and> msg_text (messages (handleSendMessage quietEnv filesOnly) ! 1)
       = ''Please analyze these 1 files: a.pdf.''
   \<and> msg_text (messages (handleSendMessage quietEnv filesOnly) ! 1)
       \<noteq> trim (messageInputValue filesOnly)"
  by code_simp

lemma prefixedText_prepare:
  "snd (prepare quietEnv ''Revenue?'' prefixedText)
     = Inr (101, [TextPart (''List the metrics.'' @ nl @ nl @ ''Revenue?'')])"
  by code_simp

theorem composed_text_and_user_message_witness:
  "''Revenue?'' = trim (messageInputValue prefixedText) \<and> API_KEY prefixedText \<noteq> []
   \<and> getActivePrefixContent prefixedText \<noteq> []
   \<and> finalMessage prefixedText ''Revenue?'' = ''List the metrics.'' @ nl @ nl @ ''Revenue?''
   \<and> outbox (handleSendMessage quietEnv prefixedText)
       = [[TextPart (''List the metrics.'' @ nl @ nl @ ''Revenue?'')]]
   \<and> messages (handleSendMessage quietEnv prefixedText) ! 1 = userEntry 100 ''Revenue?''
   \<and> getActivePrefixContent prefixedFiles \<noteq> [] \<and> trim (messageInputValue prefixedFiles) = []
   \<and> finalMessage prefixedFiles []
       = ''List the metrics.'' @ nl @ nl @ ''Please analyze these 1 files: a.pdf.''
   \<and> getActivePrefixContent asking = [] \<and> finalMessage asking ''Summarize'' = ''Summarize''
   \<and> getActivePrefixContent filesOnly = [] \<and> trim (messageInputValue filesOnly) = []
   \<and> genAI filesOnly = Some ''key'' \<and> uploadsOk quietEnv filesOnly
   \<and> finalMessage filesOnly [] = [] \<and> textParts filesOnly (finalMessage filesOnly []) = []
   \<and> outbox (handleSendMessage quietEnv filesOnly)
       = [[FileData ''application/pdf'' ''files/1'']]"
proof -
  have a1': "trim (messageInputValue prefixedText) = ''Revenue?''" by code_simp
  note a1 = a1' [symmetric]
  have a2: "''Revenue?'' \<noteq> [] \<or> uploadedFiles prefixedText \<noteq> []" by simp
  have a3: "API_KEY prefixedText \<noteq> []" by (simp add: prefixedText_def chatting_def)
  have p1: "getActivePrefixContent prefixedText = ''List the metrics.''" by code_simp
  have o1: "outbox prefixedText = []" by (simp add: prefixedText_def chatting_def emptyState_def)
  have m1: "length (messages prefixedText) = 1" by (simp add: prefixedText_def chatting_def)
  have e1: "env_nowUser quietEnv = 100 \<and> env_nowResponse quietEnv = 100"
    by (simp add: quietEnv_def)
  note t1 = composed_text_and_user_message [OF a1 a2 a3, of quietEnv 101
      "[TextPart (''List the metrics.'' @ nl @ nl @ ''Revenue?'')]"]
  have b1': "trim (messageInputValue prefixedFiles) = []" by code_simp
  note b1 = b1' [symmetric]
  have b2: "[] \<noteq> [] \<or> uploadedFiles prefixedFiles \<noteq> []" by (simp add: prefixedFiles_def)
  have b3: "API_KEY prefixedFiles \<noteq> []" by (simp add: prefixedFiles_def chatting_def)
  have p2: "getActivePrefixContent prefixedFiles = ''List the metrics.''" by code_simp
  have s2: "analyzeSentence (uploadedFiles prefixedFiles) = ''Please analyze these 1 files: a.pdf.''"
    by code_simp
  note t2 = composed_text_and_user_message [OF b1 b2 b3, of quietEnv 0 "[]"]
  have c1': "trim (messageInputValue asking) = ''Summarize''" by code_simp
  note c1 = c1' [symmetric]
  have c2: "''Summarize'' \<noteq> [] \<or> uploadedFiles asking \<noteq> []" by simp
  have c3: "API_KEY asking \<noteq> []" by (simp add: asking_def chatting_def)
  have p3: "getActivePrefixContent asking = []" by code_simp
  note t3 = composed_text_and_user_message [OF c1 c2 c3, of quietEnv 0 "[]"]
  from t1 a3 p1 o1 m1 e1 prefixedText_prepare
  have r1: "finalMessage prefixedText ''Revenue?'' = ''List the metrics.'' @ nl @ nl @ ''Revenue?''
     \<and> outbox (handleSendMessage quietEnv prefixedText)
         = [[TextPart (''List the metrics.'' @ nl @ nl @ ''Revenue?'')]]
     \<and> messages (handleSendMessage quietEnv prefixedText) ! 1 = userEntry 100 ''Revenue?''"
    by simp
  from t2 p2 s2
  have r2: "finalMessage prefixedFiles []
       = ''List the metrics.'' @ nl @ nl @ ''Please analyze these 1 files: a.pdf.''"
    by simp
  from t3 p3 have r3: "finalMessage asking ''Summarize'' = ''Summarize''" by simp
  have d1': "trim (messageInputValue filesOnly) = []" by code_simp
  note d1 = d1' [symmetric]
  have d2: "[] \<noteq> [] \<or> uploadedFiles filesOnly \<noteq> []" by (simp add: filesOnly_def)
  have d3: "API_KEY filesOnly \<noteq> []" by (simp add: filesOnly_def chatting_def)
  have p4: "getActivePrefixContent filesOnly = []" by code_simp
  have g4: "genAI filesOnly = Some ''key''" by (simp add: filesOnly_def chatting_def)
  have u4: "uploadsOk quietEnv filesOnly" by code_simp
  have o4: "outbox filesOnly = []" by (simp add: filesOnly_def chatting_def emptyState_def)
  have f4: "map (\<lambda>j. uploadedPart (env_upload quietEnv j)) [0..<length (uploadedFiles filesOnly)]
      = [FileData ''application/pdf'' ''files/1'']"
    by code_simp
  note t4 = composed_text_and_user_message [OF d1 d2 d3, of quietEnv 0 "[]"]
  from t4 p4 g4 u4 o4 f4
  have r4: "finalMessage filesOnly [] = [] \<and> textParts filesOnly (finalMessage filesOnly []) = []
     \<and> outbox (handleSendMessage quietEnv filesOnly) = [[FileData ''application/pdf'' ''files/1'']]"
    by auto
  from r1 r2 r3 r4 a1' a3 p1 p2 p3 b1' p4 d1' g4 u4 show ?thesis by (simp add: textParts_def)
qed

section \<open>Errors of a turn\<close>

lemma errorMessage_nonempty: "errorMessage e \<noteq> []"
  by (simp add: errorMessage_def apiKeyErrorMessage_def)

lemma send_failure:
  "snd (prepare env u s) = Inr (rid, parts) \<Longrightarrow> env_sendMessageStream env parts = Inl e \<Longrightarrow>
     snd (tryBlock env u s) = Some e"
  by (simp add: tryBlock_stream streamPhase_def Let_def)

lemma stream_failure:
  assumes "snd (prepare env u s) = Inr (rid, parts)"
    and "env_sendMessageStream env parts = Inr result"
    and "\<forall>d \<in> set (stream_chunks result). \<exists>x. chunk_text d = Inr x"
    and "stream_error result = Some e"
  shows "snd (tryBlock env u s) = Some e"
proof -
  let ?s = "(fst (prepare env u s))\<lparr>outbox := outbox (fst (prepare env u s)) @ [parts]\<rparr>"
  obtain st err where p: "processStream rid (stream_chunks result) ([], messages ?s) = (st, err)"
    by (cases "processStream rid (stream_chunks result) ([], messages ?s)")
  from processStream_no_throw [OF assms(3), of rid "([], messages ?s)"] p have "err = None" by simp
  with p assms(2,4) show ?thesis
    unfolding tryBlock_stream [OF assms(1)] by (simp add: streamPhase_def Let_def)
qed

lemma prepare_failure:
  "snd (prepare env u s) = Inl e \<Longrightarrow> snd (tryBlock env u s) = Some e"
  by (simp add: tryBlock_prepare_error)

lemma credential_guard:
  "API_KEY s = [] \<Longrightarrow> trim (messageInputValue s) \<noteq> [] \<or> uploadedFiles s \<noteq> [] \<Longrightarrow>
     handleSendMessage env s = openApiKeyModal s"
  by (auto simp: handleSendMessage_def Let_def)

lemma openApiKeyModal_frame:
  "apiKeyModalHidden (openApiKeyModal s) = False
   \<and> outbox (openApiKeyModal s) = outbox s
   \<and> messages (openApiKeyModal s) = messages s"
  by (simp add: openApiKeyModal_def Let_def)

lemma invalidKey_iff: "invalidKey e \<longleftrightarrow> includes_str (error_message e) ''API key not valid''"
  by (cases "error_message e") (simp_all add: invalidKey_def)

lemma errorMessage_text:
  \<open>errorMessage e =
     (if includes_str (error_message e) ''API key not valid'' then
        ''API key error: The API key you provided is not valid. Please click the "Set API Key" button to update your API key.''
      else if error_message e \<noteq> [] then ''Error: '' @ error_message e
      else ''Sorry, an error occurred. Please try again.'')\<close>
  by (simp add: errorMessage_def invalidKey_iff apiKeyErrorMessage_def)

lemma processStream_length:
  "length (snd (fst (processStream rid cs st))) = length (snd st)"
proof (induction cs arbitrary: st)
  case Nil
  show ?case by simp
next
  case (Cons c cs)
  show ?case
  proof (cases "applyChunk rid c st")
    case (Inl e)
    then show ?thesis by simp
  next
    case (Inr st')
    obtain rt ms where st: "st = (rt, ms)" by (cases st)
    from Inr obtain t where t: "chunk_text c = Inr t" using applyChunk_Inr by blast
    from applyChunk_text [OF t, of rid rt ms] Inr st have "length (snd st') = length (snd st)"
      by auto
    with Cons.IH [of st'] Inr show ?thesis by simp
  qed
qed

lemma processStream_throw:
  "textsReturn before \<Longrightarrow> chunk_text c = Inl e \<Longrightarrow>
     snd (processStream rid (before @ c # rest) st) = Some e"
proof (induction before arbitrary: st)
  case Nil
  then show ?case by (simp add: applyChunk_throws)
next
  case (Cons d ds)
  from Cons.prems(1) obtain x where x: "chunk_text d = Inr x" and r: "textsReturn ds"
    by (auto simp: textsReturn_def split: sum.splits)
  obtain rt ms where st: "st = (rt, ms)" by (cases st)
  from applyChunk_text [OF x, of rid rt ms] st obtain st' where "applyChunk rid d st = Inr st'"
    by auto
  with Cons.IH [OF r Cons.prems(2), of st'] show ?case by simp
qed

lemma textsReturn_all: "textsReturn cs \<Longrightarrow> \<forall>d \<in> set cs. \<exists>x. chunk_text d = Inr x"
proof
  fix d assume a: "textsReturn cs" and d: "d \<in> set cs"
  then have "case chunk_text d of Inl e \<Rightarrow> False | Inr x \<Rightarrow> True"
    by (simp add: textsReturn_def list_all_iff)
  then show "\<exists>x. chunk_text d = Inr x" by (cases "chunk_text d") simp_all
qed

lemma streamPhase_error_frame:
  assumes "snd (streamPhase env rid parts s) = Some e"
  shows "length (messages (fst (streamPhase env rid parts s))) = length (messages s)
         \<and> uploadedFiles (fst (streamPhase env rid parts s)) = uploadedFiles s
         \<and> localStorageKey (fst (streamPhase env rid parts s)) = localStorageKey s"
proof -
  let ?s = "s\<lparr>outbox := outbox s @ [parts]\<rparr>"
  show ?thesis
  proof (cases "env_sendMessageStream env parts")
    case (Inl e')
    then show ?thesis by (simp add: streamPhase_def Let_def)
  next
    case (Inr result)
    obtain st err where p: "processStream rid (stream_chunks result) ([], messages ?s) = (st, err)"
      by (cases "processStream rid (stream_chunks result) ([], messages ?s)")
    from processStream_length [of rid "stream_chunks result" "([], messages ?s)"] p
    have l: "length (snd st) = length (messages s)" by simp
    show ?thesis
    proof (cases err)
      case (Some e')
      with Inr p l show ?thesis by (simp add: streamPhase_def Let_def)
    next
      case None
      show ?thesis
      proof (cases "stream_error result")
        case (Some e')
        with None Inr p l show ?thesis by (simp add: streamPhase_def Let_def)
      next
        case n: None
        with None Inr p have "snd (streamPhase env rid parts s) = None"
          by (simp add: streamPhase_def Let_def)
        with assms show ?thesis by simp
      qed
    qed
  qed
qed

lemma tryBlock_error_frame:
  assumes "u \<noteq> [] \<or> uploadedFiles s \<noteq> []" and "genAI s = Some client"
    and "snd (tryBlock env u s) = Some e"
  shows "length (messages (fst (tryBlock env u s))) = length (messages s) + 2
         \<and> uploadedFiles (fst (tryBlock env u s)) = uploadedFiles s
         \<and> localStorageKey (fst (tryBlock env u s)) = localStorageKey s
         \<and> API_KEY (fst (tryBlock env u s)) = API_KEY s"
proof (cases "snd (prepare env u s)")
  case (Inl e')
  from tryBlock_prepare_error [OF Inl] prepare_length [OF assms(1,2), of env]
    prepare_frame [of env u s]
  show ?thesis by simp
next
  case (Inr b)
  obtain rid parts where "b = (rid, parts)" by (cases b)
  with Inr have p: "snd (prepare env u s) = Inr (rid, parts)" by simp
  from assms(3) have "snd (streamPhase env rid parts (fst (prepare env u s))) = Some e"
    unfolding tryBlock_stream [OF p] .
  from streamPhase_error_frame [OF this] streamPhase_frame [of env rid parts "fst (prepare env u s)"]
    prepare_length [OF assms(1,2), of env] prepare_frame [of env u s]
  show ?thesis unfolding tryBlock_stream [OF p] by simp
qed

lemma error_is_reported:
  assumes g: "trim (messageInputValue s) \<noteq> [] \<or> uploadedFiles s \<noteq> []"
    and k: "API_KEY s \<noteq> []" and c: "genAI s = Some client"
    and t: "snd (tryBlock env (trim (messageInputValue s)) s) = Some e"
  shows "errorReported env s (handleSendMessage env s) e"
proof -
  let ?u = "trim (messageInputValue s)"
  let ?t = "fst (tryBlock env ?u s)"
  let ?s' = "handleSendMessage env s"
  have tb: "tryBlock env ?u s = (?t, Some e)" using t by (cases "tryBlock env ?u s") simp
  have s': "?s' = (catchBlock (env_nowError env) e ?t)\<lparr>isLoading := False\<rparr>"
    unfolding handleSendMessage_turn [OF g k] by (subst tb) simp
  note fr = tryBlock_error_frame [OF g c t]
  have m: "messages ?s' = messages ?t @ [errorEntry (env_nowError env) e]"
    unfolding s' by (simp add: catchBlock_def Let_def)
  have len: "length (messages ?s') = length (messages s) + 3" unfolding m using fr by simp
  have lst: "last (messages ?s') =
         \<lparr>msg_id = env_nowError env + 1, msg_role = Model, msg_text = errorMessage e,
          msg_tokenCounts = None\<rparr>"
    unfolding m by (simp add: errorEntry_def)
  have ld: "isLoading ?s' = False" unfolding s' by simp
  have uf: "uploadedFiles ?s' = uploadedFiles s"
    unfolding s' using fr by (simp add: catchBlock_def Let_def)
  have ls: "localStorageKey ?s' = localStorageKey s"
    unfolding s' using fr by (simp add: catchBlock_def Let_def)
  have inv: "invalidKey e \<Longrightarrow> API_KEY ?s' = [] \<and> genAI ?s' = None \<and> chatSession ?s' = None"
    unfolding s' by (simp add: catchBlock_def Let_def)
  have ninv: "\<not> invalidKey e \<Longrightarrow> API_KEY ?s' = API_KEY s"
    unfolding s' using fr by (simp add: catchBlock_def Let_def)
  have nxt: "invalidKey e \<Longrightarrow> trim v \<noteq> [] \<or> uploadedFiles ?s' \<noteq> [] \<Longrightarrow>
      handleSendMessage env' (?s'\<lparr>messageInputValue := v\<rparr>)
        = (?s'\<lparr>messageInputValue := v\<rparr>)\<lparr>apiKeyModalHidden := False\<rparr>" for env' v
  proof -
    assume i: "invalidKey e" and n: "trim v \<noteq> [] \<or> uploadedFiles ?s' \<noteq> []"
    let ?n = "?s'\<lparr>messageInputValue := v\<rparr>"
    from inv [OF i] have e: "API_KEY ?n = []" by simp
    from n have "trim (messageInputValue ?n) \<noteq> [] \<or> uploadedFiles ?n \<noteq> []" by simp
    from credential_guard [OF e this] have "handleSendMessage env' ?n = openApiKeyModal ?n" .
    also have "\<dots> = ?n\<lparr>apiKeyModalHidden := False\<rparr>" using e by (simp add: openApiKeyModal_def)
    finally show ?thesis .
  qed
  show ?thesis
    unfolding errorReported_def
    using len lst ld uf ls inv ninv nxt
    by (simp add: invalidKey_iff errorMessage_text)
qed

lemma init_rejected:
  "API_KEY s \<noteq> [] \<Longrightarrow> net_init net = Inl e0 \<Longrightarrow> uploadFileToGemini s net f = Inl e0"
  by (simp add: uploadFileToGemini_def)

lemma transfer_network_error:
  "API_KEY s \<noteq> [] \<Longrightarrow> net_init net = Inr r \<Longrightarrow> init_ok r \<Longrightarrow> init_uploadUrl r = Some url \<Longrightarrow>
   url \<noteq> [] \<Longrightarrow> net_xhr net = XhrError \<Longrightarrow>
     uploadFileToGemini s net f = Inl (Error ''Network error during upload'')"
  by (simp add: uploadFileToGemini_def)

lemma upload_failure_reported:
  assumes g: "trim (messageInputValue s) \<noteq> [] \<or> uploadedFiles s \<noteq> []"
    and k: "API_KEY s \<noteq> []" and c: "genAI s = Some client"
    and f: "uploadedFiles s = pre @ f # post"
    and ok: "list_all (\<lambda>j. uploadOk (env_upload env j)) [0..<length pre]"
    and u: "uploadFileToGemini s (env_upload env (length pre)) f = Inl e0"
  shows "errorReported env s (handleSendMessage env s)
           (Error (''Failed to upload '' @ file_name f @ '': '' @ error_message e0))"
proof -
  from prepare_upload_failure [OF k c f ok u, of "trim (messageInputValue s)"]
  have "snd (tryBlock env (trim (messageInputValue s)) s)
          = Some (Error (''Failed to upload '' @ file_name f @ '': '' @ error_message e0))"
    by (rule prepare_failure)
  then show ?thesis by (rule error_is_reported [OF g k c])
qed

text \<open>
  C3, as amended. Take a turn that passes both guards, with the client present. When an
  upload fails after the earlier ones succeeded (the initiation request is rejected by the
  network, or refused, or the transfer fails on the network, or \<open>uploadFileToGemini\<close>
  rejects for any reason), when the request is rejected, when a \<open>text()\<close> call throws
  after chunks that were read, when the stream fails after its chunks, or when the \<open>try\<close>
  block throws for any other reason, the error is reported as \<open>errorReported\<close> says: one
  model message with the error text is appended last and the loading flag is cleared; for
  an error whose message includes \<open>API key not valid\<close> the key variable, the client and the
  chat session are emptied while the key in the local storage is kept, and the next
  submission that is not empty opens the key dialog and sends nothing.
\<close>

theorem turn_error_reported:
  assumes "trim (messageInputValue s) \<noteq> [] \<or> uploadedFiles s \<noteq> []"
    and "API_KEY s \<noteq> []" and "genAI s = Some client"
    and "s' = handleSendMessage env s"
    and "net = env_upload env (length pre)"
    and "failing \<longleftrightarrow>
           uploadedFiles s = pre @ f # post
           \<and> list_all (\<lambda>j. uploadOk (env_upload env j)) [0..<length pre]"
    and "sent = env_sendMessageStream env (requestParts env s)"
  shows "(failing \<and> net_init net = Inl einit \<longrightarrow>
            errorReported env s s'
              (Error (''Failed to upload '' @ file_name f @ '': '' @ error_message einit)))
         \<and> (failing \<and> net_init net = Inr r \<and> \<not> init_ok r \<longrightarrow>
            errorReported env s s'
              (Error (''Failed to upload '' @ file_name f @ '': Failed to initialize upload: ''
                 @ init_text r)))
         \<and> (failing \<and> net_init net = Inr r \<and> init_ok r \<and> init_uploadUrl r = Some url
              \<and> url \<noteq> [] \<and> net_xhr net = XhrError \<longrightarrow>
            errorReported env s s'
              (Error (''Failed to upload '' @ file_name f @ '': Network error during upload'')))
         \<and> (failing \<and> uploadFileToGemini s net f = Inl eup \<longrightarrow>
            errorReported env s s'
              (Error (''Failed to upload '' @ file_name f @ '': '' @ error_message eup)))
         \<and> (uploadsOk env s \<and> sent = Inl esend \<longrightarrow> errorReported env s s' esend)
         \<and> (uploadsOk env s \<and> sent = Inr result \<and> stream_chunks result = before @ c # rest
              \<and> textsReturn before \<and> chunk_text c = Inl etext \<longrightarrow>
            errorReported env s s' etext)
         \<and> (uploadsOk env s \<and> sent = Inr result \<and> textsReturn (stream_chunks result)
              \<and> stream_error result = Some eiter \<longrightarrow>
            errorReported env s s' eiter)
         \<and> (snd (tryBlock env (trim (messageInputValue s)) s) = Some eany \<longrightarrow>
            errorReported env s s' eany)"
proof -
  note g = assms(1) and k = assms(2) and cl = assms(3)
  let ?u = "trim (messageInputValue s)"
  have up: "failing \<Longrightarrow> uploadFileToGemini s net f = Inl x \<Longrightarrow>
      errorReported env s s' (Error (''Failed to upload '' @ file_name f @ '': '' @ error_message x))"
    for x
    using upload_failure_reported [OF g k cl, of pre f post env x]
    unfolding assms(4) assms(5) assms(6) by blast
  have c1: "failing \<and> net_init net = Inl einit \<longrightarrow>
            errorReported env s s'
              (Error (''Failed to upload '' @ file_name f @ '': '' @ error_message einit))"
    using up [of einit] init_rejected [OF k, of net einit f] by blast
  have c2: "failing \<and> net_init net = Inr r \<and> \<not> init_ok r \<longrightarrow>
            errorReported env s s'
              (Error (''Failed to upload '' @ file_name f @ '': Failed to initialize upload: ''
                 @ init_text r))"
    using up [of "Error (''Failed to initialize upload: '' @ init_text r)"]
      init_refused [OF k, of net r f] by auto
  have c3: "failing \<and> net_init net = Inr r \<and> init_ok r \<and> init_uploadUrl r = Some url
              \<and> url \<noteq> [] \<and> net_xhr net = XhrError \<longrightarrow>
            errorReported env s s'
              (Error (''Failed to upload '' @ file_name f @ '': Network error during upload''))"
    using up [of "Error ''Network error during upload''"]
      transfer_network_error [OF k, of net r url f] by auto
  have c4: "failing \<and> uploadFileToGemini s net f = Inl eup \<longrightarrow>
            errorReported env s s'
              (Error (''Failed to upload '' @ file_name f @ '': '' @ error_message eup))"
    using up [of eup] by blast
  have rep: "snd (tryBlock env ?u s) = Some x \<Longrightarrow> errorReported env s s' x" for x
    unfolding assms(4) by (rule error_is_reported [OF g k cl])
  have pr: "uploadsOk env s \<Longrightarrow>
      snd (prepare env ?u s) = Inr (env_nowResponse env + 1, requestParts env s)"
    by (rule prepare_request [OF k cl])
  have c5: "uploadsOk env s \<and> sent = Inl esend \<longrightarrow> errorReported env s s' esend"
  proof
    assume a: "uploadsOk env s \<and> sent = Inl esend"
    then have "env_sendMessageStream env (requestParts env s) = Inl esend" unfolding assms(7) by simp
    from send_failure [OF pr this] a show "errorReported env s s' esend" by (simp add: rep)
  qed
  have c6: "uploadsOk env s \<and> sent = Inr result \<and> stream_chunks result = before @ c # rest
              \<and> textsReturn before \<and> chunk_text c = Inl etext \<longrightarrow>
            errorReported env s s' etext"
  proof
    assume a: "uploadsOk env s \<and> sent = Inr result \<and> stream_chunks result = before @ c # rest
              \<and> textsReturn before \<and> chunk_text c = Inl etext"
    then have sd: "env_sendMessageStream env (requestParts env s) = Inr result"
      unfolding assms(7) by simp
    let ?p = "fst (prepare env ?u s)"
    let ?q = "?p\<lparr>outbox := outbox ?p @ [requestParts env s]\<rparr>"
    from a have ps: "snd (processStream (env_nowResponse env + 1) (stream_chunks result)
        ([], messages ?q)) = Some etext"
      using processStream_throw [of before c etext] by simp
    obtain st where "processStream (env_nowResponse env + 1) (stream_chunks result)
        ([], messages ?q) = (st, Some etext)"
      using ps by (cases "processStream (env_nowResponse env + 1) (stream_chunks result)
        ([], messages ?q)") simp
    with sd have "snd (streamPhase env (env_nowResponse env + 1) (requestParts env s) ?p) = Some etext"
      by (simp add: streamPhase_def Let_def)
    then have "snd (tryBlock env ?u s) = Some etext"
      using a tryBlock_stream [OF pr] by simp
    then show "errorReported env s s' etext" by (rule rep)
  qed
  have c7: "uploadsOk env s \<and> sent = Inr result \<and> textsReturn (stream_chunks result)
              \<and> stream_error result = Some eiter \<longrightarrow>
            errorReported env s s' eiter"
  proof
    assume a: "uploadsOk env s \<and> sent = Inr result \<and> textsReturn (stream_chunks result)
              \<and> stream_error result = Some eiter"
    then have sd: "env_sendMessageStream env (requestParts env s) = Inr result"
      unfolding assms(7) by simp
    from a have p: "snd (prepare env ?u s) = Inr (env_nowResponse env + 1, requestParts env s)"
      using pr by simp
    from a have tr: "\<forall>d \<in> set (stream_chunks result). \<exists>x. chunk_text d = Inr x"
      using textsReturn_all by blast
    from a have se: "stream_error result = Some eiter" by simp
    from stream_failure [OF p sd tr se] show "errorReported env s s' eiter" by (rule rep)
  qed
  have c8: "snd (tryBlock env ?u s) = Some eany \<longrightarrow> errorReported env s s' eany"
    using rep by blast
  from c1 c2 c3 c4 c5 c6 c7 c8 show ?thesis by blast
qed

lemma asking_guard:
  "trim (messageInputValue asking) = ''Summarize'' \<and> API_KEY asking = ''key''
   \<and> genAI asking = Some ''key'' \<and> uploadedFiles asking = []"
  by code_simp

lemma asking_request: "requestParts env asking = [TextPart ''Summarize'']"
proof -
  have "textParts asking (finalMessage asking (trim (messageInputValue asking)))
          = [TextPart ''Summarize'']"
    by code_simp
  moreover have "uploadedFiles asking = []" using asking_guard by simp
  ultimately show ?thesis by (simp add: requestParts_def)
qed

lemma asking_uploadsOk: "uploadsOk env asking"
  using asking_guard by (simp add: uploadsOk_def)

theorem turn_error_reported_witness:
  "trim (messageInputValue asking) = ''Summarize'' \<and> API_KEY asking = ''key''
   \<and> genAI asking = Some ''key''
   \<and> env_sendMessageStream invalidKeyEnv (requestParts invalidKeyEnv asking)
       = Inl (Error ''[400 Bad Request] API key not valid. Please pass a valid API key.'')
   \<and> errorReported invalidKeyEnv asking (handleSendMessage invalidKeyEnv asking)
        (Error ''[400 Bad Request] API key not valid. Please pass a valid API key.'')
   \<and> map msg_text (messages (handleSendMessage invalidKeyEnv asking))
       = [''hi'', ''Summarize'', [], apiKeyErrorMessage]
   \<and> API_KEY (handleSendMessage invalidKeyEnv asking) = []
   \<and> localStorageKey (handleSendMessage invalidKeyEnv asking) = Some ''key''
   \<and> trim ''again'' = ''again''
   \<and> apiKeyModalHidden (handleSendMessage invalidKeyEnv asking) = True
   \<and> handleSendMessage quietEnv ((handleSendMessage invalidKeyEnv asking)\<lparr>messageInputValue := ''again''\<rparr>)
       = (handleSendMessage invalidKeyEnv asking)\<lparr>messageInputValue := ''again'', apiKeyModalHidden := False\<rparr>
   \<and> env_sendMessageStream blockedEnv (requestParts blockedEnv asking) = Inr blockedStream
   \<and> errorReported blockedEnv asking (handleSendMessage blockedEnv asking)
        (Error ''[GoogleGenerativeAI Error]: Candidate was blocked due to SAFETY'')
   \<and> API_KEY (handleSendMessage blockedEnv asking) = ''key''
   \<and> API_KEY attached = ''key'' \<and> genAI attached = Some ''key''
   \<and> uploadedFiles attached = [] @ mkFile ''a.pdf'' 1 # []
   \<and> net_init (env_upload quotaEnv 0)
       = Inr \<lparr>init_ok = False, init_text = ''quota exceeded'', init_uploadUrl = None\<rparr>
   \<and> errorReported quotaEnv attached (handleSendMessage quotaEnv attached)
        (Error ''Failed to upload a.pdf: Failed to initialize upload: quota exceeded'')"
proof -
  note a = asking_guard
  have g1: "trim (messageInputValue asking) \<noteq> [] \<or> uploadedFiles asking \<noteq> []" using a by simp
  have k1: "API_KEY asking \<noteq> []" using a by simp
  have c1: "genAI asking = Some ''key''" using a by simp
  have s1: "env_sendMessageStream invalidKeyEnv (requestParts invalidKeyEnv asking)
       = Inl (Error ''[400 Bad Request] API key not valid. Please pass a valid API key.'')"
    by (simp add: invalidKeyEnv_def)
  note t1 = turn_error_reported [where s = asking and env = invalidKeyEnv and pre = "[]"
      and esend = "Error ''[400 Bad Request] API key not valid. Please pass a valid API key.''",
      OF g1 k1 c1 refl refl refl refl]
  from t1 s1 asking_uploadsOk [of invalidKeyEnv]
  have r1: "errorReported invalidKeyEnv asking (handleSendMessage invalidKeyEnv asking)
        (Error ''[400 Bad Request] API key not valid. Please pass a valid API key.'')"
    by blast
  have i1: "includes_str
      (error_message (Error ''[400 Bad Request] API key not valid. Please pass a valid API key.''))
      ''API key not valid''"
    by code_simp
  have ag: "trim ''again'' = ''again''" by code_simp
  from r1 i1 have k': "API_KEY (handleSendMessage invalidKeyEnv asking) = []"
    and l': "localStorageKey (handleSendMessage invalidKeyEnv asking) = localStorageKey asking"
    and n': "\<forall>env' v. trim v \<noteq> [] \<or> uploadedFiles (handleSendMessage invalidKeyEnv asking) \<noteq> [] \<longrightarrow>
                handleSendMessage env' ((handleSendMessage invalidKeyEnv asking)\<lparr>messageInputValue := v\<rparr>)
                  = ((handleSendMessage invalidKeyEnv asking)\<lparr>messageInputValue := v\<rparr>)\<lparr>apiKeyModalHidden := False\<rparr>"
    unfolding errorReported_def by blast+
  from n' ag
  have nx: "handleSendMessage quietEnv ((handleSendMessage invalidKeyEnv asking)\<lparr>messageInputValue := ''again''\<rparr>)
       = (handleSendMessage invalidKeyEnv asking)\<lparr>messageInputValue := ''again'', apiKeyModalHidden := False\<rparr>"
    by simp
  have ls: "localStorageKey asking = Some ''key''" by (simp add: asking_def chatting_def)
  have tx: "map msg_text (messages (handleSendMessage invalidKeyEnv asking))
       = [''hi'', ''Summarize'', [], apiKeyErrorMessage]"
    by code_simp
  have hid: "apiKeyModalHidden (handleSendMessage invalidKeyEnv asking) = True" by code_simp
  have s2: "env_sendMessageStream blockedEnv (requestParts blockedEnv asking) = Inr blockedStream"
    by (simp add: blockedEnv_def)
  have b2: "stream_chunks blockedStream
      = [sdkChunk ''Partial'' None] @ sdkChunk '' answer'' (Some ''SAFETY'') # []"
    by (simp add: blockedStream_def)
  have tr2: "textsReturn [sdkChunk ''Partial'' None]" by code_simp
  have th2: "chunk_text (sdkChunk '' answer'' (Some ''SAFETY''))
      = Inl (Error ''[GoogleGenerativeAI Error]: Candidate was blocked due to SAFETY'')"
    by code_simp
  note t2 = turn_error_reported [where s = asking and env = blockedEnv and pre = "[]"
      and result = blockedStream and before = "[sdkChunk ''Partial'' None]"
      and c = "sdkChunk '' answer'' (Some ''SAFETY'')" and rest = "[]"
      and etext = "Error ''[GoogleGenerativeAI Error]: Candidate was blocked due to SAFETY''",
      OF g1 k1 c1 refl refl refl refl]
  from t2 s2 b2 tr2 th2 asking_uploadsOk [of blockedEnv]
  have r2: "errorReported blockedEnv asking (handleSendMessage blockedEnv asking)
        (Error ''[GoogleGenerativeAI Error]: Candidate was blocked due to SAFETY'')"
    by blast
  have i2: "\<not> includes_str
      (error_message (Error ''[GoogleGenerativeAI Error]: Candidate was blocked due to SAFETY''))
      ''API key not valid''"
    by code_simp
  from r2 i2 have k2: "API_KEY (handleSendMessage blockedEnv asking) = API_KEY asking"
    unfolding errorReported_def by blast
  have g3: "trim (messageInputValue attached) \<noteq> [] \<or> uploadedFiles attached \<noteq> []"
    by (simp add: attached_def)
  have ka: "API_KEY attached = ''key''" and ca: "genAI attached = Some ''key''"
    by (simp_all add: attached_def chatting_def)
  have k3: "API_KEY attached \<noteq> []" using ka by simp
  have f3: "uploadedFiles attached = [] @ mkFile ''a.pdf'' 1 # []" by (simp add: attached_def)
  have n3: "net_init (env_upload quotaEnv (length ([] :: File list)))
       = Inr \<lparr>init_ok = False, init_text = ''quota exceeded'', init_uploadUrl = None\<rparr>"
    by (simp add: quotaEnv_def refusedUpload_def)
  note t3 = turn_error_reported [where s = attached and env = quotaEnv and pre = "[]"
      and f = "mkFile ''a.pdf'' 1" and post = "[]"
      and r = "\<lparr>init_ok = False, init_text = ''quota exceeded'', init_uploadUrl = None\<rparr>",
      OF g3 k3 ca refl refl refl refl]
  from t3 f3 n3
  have "errorReported quotaEnv attached (handleSendMessage quotaEnv attached)
        (Error (''Failed to upload '' @ file_name (mkFile ''a.pdf'' 1)
           @ '': Failed to initialize upload: '' @ ''quota exceeded''))"
    by simp
  then have r3: "errorReported quotaEnv attached (handleSendMessage quotaEnv attached)
        (Error ''Failed to upload a.pdf: Failed to initialize upload: quota exceeded'')"
    by (simp add: mkFile_def)
  from a s1 r1 tx k' l' ls ag hid nx s2 r2 k2 ka ca f3 n3 r3 show ?thesis by simp
qed

text \<open>
  C3 as stated fails after an invalid-key error: the key in the local storage is still
  there, only the key variable is emptied; and the next submit attempt, made with the
  input as the turn left it (empty, no file queued), does not open the key dialog.
\<close>

theorem stored_key_kept_counterexample:
  "API_KEY asking = ''key'' \<and> localStorageKey asking = Some ''key''
   \<and> env_sendMessageStream invalidKeyEnv [TextPart ''Summarize'']
       = Inl (Error ''[400 Bad Request] API key not valid. Please pass a valid API key.'')
   \<and> map msg_text (messages (handleSendMessage invalidKeyEnv asking))
       = [''hi'', ''Summarize'', [], apiKeyErrorMessage]
   \<and> API_KEY (handleSendMessage invalidKeyEnv asking) = []
   \<and> localStorageKey (handleSendMessage invalidKeyEnv asking) = Some ''key''
   \<and> messageInputValue (handleSendMessage invalidKeyEnv asking) = []
   \<and> uploadedFiles (handleSendMessage invalidKeyEnv asking) = []
   \<and> apiKeyModalHidden (handleSendMessage invalidKeyEnv asking) = True
   \<and> apiKeyModalHidden (handleSendMessage quietEnv (handleSendMessage invalidKeyEnv asking)) = True"
  by code_simp

section \<open>Upload failures\<close>

text \<open>
  C8, as amended: when the uploads before file \<open>f\<close> succeed and the initiation request for
  \<open>f\<close> is answered with a non-success status, the transcript gains the user message, the
  empty placeholder and one model error message. Its text is \<open>Error:\<close> followed by the
  upload error text, which holds the response body, unless the upload error text includes
  \<open>API key not valid\<close>: then it is the fixed API-key message. The loading flag is false,
  the queue is as it was and no chat request has been sent.
\<close>

theorem upload_initiation_failure:
  assumes "API_KEY s \<noteq> []" and "genAI s = Some client"
    and "uploadedFiles s = pre @ f # post"
    and "\<forall>j < length pre. \<exists>m. uploadFileToGemini s (env_upload env j) (pre ! j) = Inr m"
    and "net_init (env_upload env (length pre)) = Inr r" and "\<not> init_ok r"
    and "u = trim (messageInputValue s)"
    and "up = ''Failed to upload '' @ file_name f @ '': Failed to initialize upload: '' @ init_text r"
  shows "messages (handleSendMessage env s) =
           messages s @ [userEntry (env_nowUser env) (if u \<noteq> [] then u else analyzeSentence (uploadedFiles s)),
                         placeholder (env_nowResponse env + 1),
                         errorEntry (env_nowError env) (Error up)]
         \<and> msg_role (errorEntry (env_nowError env) (Error up)) = Model
         \<and> msg_text (errorEntry (env_nowError env) (Error up))
             = (if includes_str up ''API key not valid'' then apiKeyErrorMessage else ''Error: '' @ up)
         \<and> (\<not> includes_str up ''API key not valid'' \<longrightarrow>
               includes_str (msg_text (errorEntry (env_nowError env) (Error up))) (init_text r))
         \<and> isLoading (handleSendMessage env s) = False
         \<and> uploadedFiles (handleSendMessage env s) = uploadedFiles s
         \<and> outbox (handleSendMessage env s) = outbox s"
proof -
  let ?e = "userEntry (env_nowUser env) (if u \<noteq> [] then u else analyzeSentence (uploadedFiles s))"
  let ?s3 = "(pushUserMessage (env_nowUser env) u (s\<lparr>isLoading := True\<rparr>))\<lparr>messageInputValue := []\<rparr>"
  let ?s4 = "case chatSession ?s3 of
               None \<Rightarrow> ?s3\<lparr>chatSession := Some \<lparr>chat_model = modelSelectValue ?s3\<rparr>\<rparr>
             | Some session \<Rightarrow> ?s3"
  let ?s5 = "?s4\<lparr>messages := messages ?s4 @ [placeholder (env_nowResponse env + 1)]\<rparr>"
  have ne: "uploadedFiles s \<noteq> []" using assms(3) by simp
  then have g: "trim (messageInputValue s) \<noteq> [] \<or> uploadedFiles s \<noteq> []" by simp
  have m3: "messages ?s3 = messages s @ [?e]"
    using pushUserMessage_messages [of u "s\<lparr>isLoading := True\<rparr>" "env_nowUser env"] ne by simp
  have "messages ?s4 = messages ?s3" by (cases "chatSession ?s3") simp_all
  then have m5: "messages ?s5 = messages s @ [?e, placeholder (env_nowResponse env + 1)]"
    unfolding m3 by simp
  have k5: "API_KEY ?s5 = API_KEY s" and u5: "uploadedFiles ?s5 = uploadedFiles s"
    by (simp_all add: pushUserMessage_frame split: option.splits)
  have "uploadFileToGemini s (env_upload env (0 + length pre)) f
          = Inl (Error (''Failed to initialize upload: '' @ init_text r))"
    using init_refused [OF assms(1) assms(5) assms(6)] by simp
  moreover have "\<forall>j < length pre. \<exists>m. uploadFileToGemini s (env_upload env (0 + j)) (pre ! j) = Inr m"
    using assms(4) by simp
  ultimately have "uploadAll s (env_upload env) 0 (pre @ f # post) = Inl (Error up)"
    using uploadAll_fails [of pre s "env_upload env" 0 f _ post] assms(8) by simp
  then have "uploadAll ?s5 (env_upload env) 0 (uploadedFiles ?s5) = Inl (Error up)"
    unfolding u5 assms(3) using uploadAll_key [OF k5] by simp
  then have up5: "uploadPhase env ?s5 = Inl (Error up)"
    using u5 ne by (simp add: uploadPhase_def)
  have g3: "genAI ?s3 = Some client" using assms(2) by (simp add: pushUserMessage_frame)
  have pr: "prepare env u s = (?s5, Inl (Error up))"
    using g3 up5 by (simp add: prepare_def Let_def)
  then have tb: "tryBlock env u s = (?s5, Some (Error up))" by (simp add: tryBlock_def)
  note f = handleSendMessage_fields [OF g assms(1), of env, folded assms(7), unfolded tb]
  have o5: "outbox ?s5 = outbox s" by (simp add: pushUserMessage_frame split: option.splits)
  from f m5 u5 o5
  have a: "messages (handleSendMessage env s) =
           messages s @ [?e, placeholder (env_nowResponse env + 1), errorEntry (env_nowError env) (Error up)]"
    and b: "isLoading (handleSendMessage env s) = False"
    and c: "uploadedFiles (handleSendMessage env s) = uploadedFiles s"
    and d: "outbox (handleSendMessage env s) = outbox s"
    by simp_all
  have upne: "up \<noteq> []" using assms(8) by simp
  have t: "msg_text (errorEntry (env_nowError env) (Error up))
             = (if includes_str up ''API key not valid'' then apiKeyErrorMessage else ''Error: '' @ up)"
    using upne by (simp add: errorEntry_def errorMessage_def invalidKey_def)
  have "includes_str ((''Error: Failed to upload '' @ file_name f @ '': Failed to initialize upload: '')
           @ init_text r @ []) (init_text r)"
    by (rule includes_str_middle)
  then have i: "includes_str (''Error: '' @ up) (init_text r)" using assms(8) by simp
  have r: "msg_role (errorEntry (env_nowError env) (Error up)) = Model" by (simp add: errorEntry_def)
  from a b c d t i r show ?thesis by simp
qed

theorem upload_initiation_failure_witness:
  "API_KEY attached \<noteq> [] \<and> genAI attached = Some ''key''
   \<and> uploadedFiles attached = [] @ mkFile ''a.pdf'' 1 # []
   \<and> net_init (env_upload quotaEnv 0) = Inr \<lparr>init_ok = False, init_text = ''quota exceeded'', init_uploadUrl = None\<rparr>
   \<and> map msg_text (messages (handleSendMessage quotaEnv attached))
       = [''hi'', ''Summarize'', [],
          ''Error: Failed to upload a.pdf: Failed to initialize upload: quota exceeded'']
   \<and> isLoading (handleSendMessage quotaEnv attached) = False
   \<and> uploadedFiles (handleSendMessage quotaEnv attached) = [mkFile ''a.pdf'' 1]
   \<and> outbox (handleSendMessage quotaEnv attached) = []"
proof -
  have h1: "API_KEY attached \<noteq> []" by (simp add: attached_def chatting_def)
  have h2: "genAI attached = Some ''key''" by (simp add: attached_def chatting_def)
  have h3: "uploadedFiles attached = [] @ mkFile ''a.pdf'' 1 # []" by (simp add: attached_def)
  have h4: "\<forall>j < length ([] :: File list).
      \<exists>m. uploadFileToGemini attached (env_upload quotaEnv j) ([] ! j) = Inr m" by simp
  have h5: "net_init (env_upload quotaEnv (length ([] :: File list)))
      = Inr \<lparr>init_ok = False, init_text = ''quota exceeded'', init_uploadUrl = None\<rparr>"
    by (simp add: quotaEnv_def refusedUpload_def)
  have h6: "\<not> init_ok \<lparr>init_ok = False, init_text = ''quota exceeded'', init_uploadUrl = None\<rparr>"
    by simp
  have u: "trim (messageInputValue attached) = ''Summarize''" by code_simp
  have o: "outbox attached = []" by (simp add: attached_def chatting_def emptyState_def)
  have m: "messages attached = [userEntry 5 ''hi'']" by (simp add: attached_def chatting_def)
  have n: "\<not> includes_str
      (''Failed to upload '' @ file_name (mkFile ''a.pdf'' 1) @ '': Failed to initialize upload: ''
         @ ''quota exceeded'') ''API key not valid''"
    by code_simp
  note t = upload_initiation_failure [OF h1 h2 h3 h4 h5 h6 u [symmetric] refl]
  from t n have "map msg_text (messages (handleSendMessage quotaEnv attached))
       = [''hi'', ''Summarize'', [],
          ''Error: Failed to upload a.pdf: Failed to initialize upload: quota exceeded'']"
    by (simp add: m userEntry_def placeholder_def mkFile_def)
  with t h1 h2 h3 h5 o show ?thesis by (simp add: attached_def)
qed

text \<open>
  C8 as stated fails when the initiation request is refused for an invalid key: the error
  message gained is the fixed API-key message, which contains neither the response body nor
  the upload error text built from it.
\<close>

theorem upload_error_text_counterexample:
  "uploadedFiles attached = [mkFile ''a.pdf'' 1]
   \<and> net_init (env_upload keyRefusedEnv 0)
       = Inr \<lparr>init_ok = False, init_text = ''API key not valid. Please pass a valid API key.'',
              init_uploadUrl = None\<rparr>
   \<and> map msg_text (messages (handleSendMessage keyRefusedEnv attached))
       = [''hi'', ''Summarize'', [], apiKeyErrorMessage]
   \<and> \<not> includes_str apiKeyErrorMessage ''API key not valid. Please pass a valid API key.''
   \<and> \<not> includes_str apiKeyErrorMessage ''Failed to initialize upload''
   \<and> \<not> includes_str apiKeyErrorMessage ''Failed to upload''"
  by code_simp

end
